theory Spec2Isabelle
  imports Complex_Main "HOL-Library.Sublist"
begin

section \<open>The record collection: storage, repository operations and search\<close>

text \<open>
  The development embeds \<^verbatim>\<open>database/models.py\<close>, \<^verbatim>\<open>api/schemas.py\<close> and
  \<^verbatim>\<open>api/crud.py\<close>. The code is written against an object-relational mapper
  on top of SQLite; the mapper and the engine are libraries, so what they do is written
  out here as far as the functions of \<^verbatim>\<open>crud.py\<close> depend on it:

  \<^item> a table with an \<^verbatim>\<open>INTEGER PRIMARY KEY\<close> is the list of its rows in rowid order
    (the order in which a query without \<^verbatim>\<open>ORDER BY\<close> scans it); the id of a new row is
    the largest id of the table plus one, or 1 in an empty table. The association table
    has no column besides its two-column primary key and is the set of its rows;
  \<^item> an integer that the driver hands to SQLite as a parameter has to fit into 64 bits
    (signed): Python's \<^verbatim>\<open>sqlite3\<close> raises \<^verbatim>\<open>OverflowError\<close> for any other;
  \<^item> a session is a transaction: a function returns the committed database, or an error,
    in which case nothing of its work is committed and the caller keeps the old database;
  \<^item> the session factory is created with \<^verbatim>\<open>autoflush=False\<close>, so pending changes reach
    the tables only at \<^verbatim>\<open>db.flush()\<close> and \<^verbatim>\<open>db.commit()\<close>;
  \<^item> the two clocks the code reads are parameters of the operations: \<open>utcnow\<close>, the
    date of \<^verbatim>\<open>datetime.utcnow()\<close> (the column defaults of models.py), and \<open>today\<close>,
    the local date \<^verbatim>\<open>date.today()\<close> (crud.py, line 144);
  \<^item> the mapper is SQLAlchemy as of release 2.0.19 (the repository pins no release); what
    its flush does with the many-to-many relationship is written out in the section on
    writing genres;
  \<^item> dates are day numbers (\<^verbatim>\<open>date.toordinal()\<close>), prices are real numbers (they are
    only stored and compared), strings are lists of characters, a character being a code
    point below 256.
\<close>

subsection \<open>Data model (database/models.py)\<close>

type_synonym date = int

datatype error = IntegrityError | AttributeError | TypeError | OverflowError | OperationalError

record Genre =
  g_id :: int
  g_name :: string

record Track =
  t_id :: int
  t_record_id :: int
  t_title :: string
  t_position :: "string option"
  t_duration :: "string option"

text \<open>The columns of table \<^verbatim>\<open>records\<close>; \<open>title\<close> and \<open>artist\<close> are \<^verbatim>\<open>nullable=False\<close>.\<close>

record Record =
  r_id :: int
  r_title :: string
  r_artist :: string
  r_release_date :: "date option"
  r_label :: "string option"
  r_catalog_number :: "string option"
  r_format :: "string option"
  r_condition :: "string option"
  r_purchase_date :: "date option"
  r_purchase_price :: "real option"
  r_album_art_url :: "string option"
  r_notes :: "string option"
  r_discogs_url :: "string option"
  r_review_url :: "string option"
  r_created_at :: date
  r_updated_at :: date

text \<open>
  The four tables. \<open>record_genre\<close> is the association table of the many-to-many
  relationship, rows \<open>(record_id, genre_id)\<close>; both columns form its primary key, so
  the table holds no row twice, and no query of \<^verbatim>\<open>crud.py\<close> depends on the order of its
  rows (the genres of a record are read through the key's index, in the order of the
  genre ids).
\<close>

record database =
  records :: "Record list"
  genres :: "Genre list"
  tracks :: "Track list"
  record_genre :: "(int \<times> int) set"

definition empty_db :: database where
  "empty_db = \<lparr>records = [], genres = [], tracks = [], record_genre = {}\<rparr>"

text \<open>
  A \<^verbatim>\<open>Record\<close> object as its reader sees it: the columns and the two relationships,
  loaded from the tables (\<^verbatim>\<open>genres\<close> through the association table, \<^verbatim>\<open>tracks\<close>
  by the foreign key).
\<close>

record Record_loaded =
  o_columns :: Record
  o_genres :: "Genre list"
  o_tracks :: "Track list"

definition genres_of :: "database \<Rightarrow> int \<Rightarrow> Genre list" where
  "genres_of db rid = filter (\<lambda>g. (rid, g_id g) \<in> record_genre db) (genres db)"

definition tracks_of :: "database \<Rightarrow> int \<Rightarrow> Track list" where
  "tracks_of db rid = filter (\<lambda>t. t_record_id t = rid) (tracks db)"

definition load :: "database \<Rightarrow> Record \<Rightarrow> Record_loaded" where
  "load db r =
     \<lparr>o_columns = r, o_genres = genres_of db (r_id r), o_tracks = tracks_of db (r_id r)\<rparr>"

text \<open>The id SQLite gives the next row of a table whose ids are \<open>ids\<close>.\<close>

definition next_id :: "int list \<Rightarrow> int" where
  "next_id ids = (case ids of [] \<Rightarrow> 1 | x # xs \<Rightarrow> fold max xs x + 1)"

text \<open>The integers that can be bound to a parameter of a statement.\<close>

definition int64 :: "int \<Rightarrow> bool" where
  "int64 i \<longleftrightarrow> - (2 ^ 63) \<le> i \<and> i < 2 ^ 63"

subsection \<open>Reading (crud.py, get\_record and get\_records)\<close>

text \<open>
  \<^verbatim>\<open>db.query(Record).filter(Record.id == record_id).first()\<close>: the id is a parameter
  of the statement.
\<close>

definition get_record :: "database \<Rightarrow> int \<Rightarrow> error + Record_loaded option" where
  "get_record db record_id =
     (if int64 record_id
      then Inr (map_option (load db) (find (\<lambda>r. r_id r = record_id) (records db)))
      else Inl OverflowError)"

text \<open>
  \<^verbatim>\<open>.offset(skip).limit(limit)\<close>: SQLite reads a negative \<^verbatim>\<open>OFFSET\<close> as 0 and a
  negative \<^verbatim>\<open>LIMIT\<close> as no limit. Both are parameters of the statement.
\<close>

definition offset_limit :: "int \<Rightarrow> int \<Rightarrow> 'a list \<Rightarrow> 'a list" where
  "offset_limit skip limit xs =
     (if limit < 0 then drop (nat skip) xs else take (nat limit) (drop (nat skip) xs))"

definition get_records :: "database \<Rightarrow> int \<Rightarrow> int \<Rightarrow> error + Record_loaded list" where
  "get_records db skip limit =
     (if int64 skip \<and> int64 limit
      then Inr (map (load db) (offset_limit skip limit (records db)))
      else Inl OverflowError)"

subsection \<open>Search (crud.py, search\_records)\<close>

text \<open>
  \<^verbatim>\<open>column.ilike(pattern)\<close> is \<^verbatim>\<open>lower(column) LIKE lower(pattern)\<close>. SQLite's
  \<^verbatim>\<open>lower\<close> folds the letters A to Z only. Its \<^verbatim>\<open>LIKE\<close>

  \<^item> refuses a pattern of more than 50000 bytes with \<^verbatim>\<open>OperationalError\<close>, whatever
    the text is (\<^verbatim>\<open>NULL\<close> included); the bytes are those of UTF-8, one for a character
    below 128 and two for the others;
  \<^item> reads the pattern and the text as C strings, that is up to their first NUL character;
  \<^item> lets \<^verbatim>\<open>%\<close> match any run of characters and \<^verbatim>\<open>_\<close> any one character; there
    is no escape character;
  \<^item> is not true of a \<^verbatim>\<open>NULL\<close> text.
\<close>

definition lower_char :: "char \<Rightarrow> char" where
  "lower_char c =
     (case map_of (zip ''ABCDEFGHIJKLMNOPQRSTUVWXYZ'' ''abcdefghijklmnopqrstuvwxyz'') c of
        None \<Rightarrow> c | Some l \<Rightarrow> l)"

definition lower :: "string \<Rightarrow> string" where
  "lower s = map lower_char s"

definition nbytes :: "string \<Rightarrow> int" where
  "nbytes s = int (length s) + int (length (filter (\<lambda>c. 128 \<le> (of_char c :: int)) s))"

definition c_string :: "string \<Rightarrow> string" where
  "c_string s = takeWhile (\<lambda>c. c \<noteq> CHR 0x00) s"

fun like :: "string \<Rightarrow> string \<Rightarrow> bool" where
  "like s [] = (s = [])"
| "like s (p # ps) =
     (if p = CHR ''%'' then
        like s ps \<or> (case s of [] \<Rightarrow> False | _ # t \<Rightarrow> like t (p # ps))
      else
        (case s of [] \<Rightarrow> False | c # t \<Rightarrow> (p = CHR ''_'' \<or> p = c) \<and> like t ps))"

text \<open>The SQL function behind \<^verbatim>\<open>col LIKE pattern\<close>, for a column that may be
  \<^verbatim>\<open>NULL\<close>.\<close>

definition sqlite_like :: "string option \<Rightarrow> string \<Rightarrow> error + bool" where
  "sqlite_like col pattern =
     (if 50000 < nbytes pattern then Inl OperationalError
      else Inr (case col of None \<Rightarrow> False | Some s \<Rightarrow> like (c_string s) (c_string pattern)))"

definition ilike :: "string option \<Rightarrow> string \<Rightarrow> error + bool" where
  "ilike col pattern = sqlite_like (map_option lower col) (lower pattern)"

text \<open>
  \<^verbatim>\<open>or_(...)\<close>: the conditions are tried in turn until one is true; one that raises
  ends the statement. \<^verbatim>\<open>Record.genres.any(...)\<close> is an \<^verbatim>\<open>EXISTS\<close> over the genres
  of the record, tried row by row in the same way.
\<close>

fun sql_or :: "(error + bool) list \<Rightarrow> error + bool" where
  "sql_or [] = Inr False"
| "sql_or (c # cs) = (case c of Inl e \<Rightarrow> Inl e | Inr b \<Rightarrow> if b then Inr True else sql_or cs)"

definition sql_any :: "('a \<Rightarrow> error + bool) \<Rightarrow> 'a list \<Rightarrow> error + bool" where
  "sql_any criterion xs = sql_or (map criterion xs)"

text \<open>The filter of \<^verbatim>\<open>search_records\<close>, for one row.\<close>

definition search_filter :: "database \<Rightarrow> string \<Rightarrow> Record \<Rightarrow> error + bool" where
  "search_filter db search r =
     sql_or [ilike (Some (r_title r)) search,
          ilike (Some (r_artist r)) search,
          ilike (r_label r) search,
          ilike (r_catalog_number r) search,
          sql_any (\<lambda>g. ilike (Some (g_name g)) search) (genres_of db (r_id r))]"

text \<open>A scan of a table with a filter that may raise: the rows for which it is true.\<close>

fun filter_rows :: "('a \<Rightarrow> error + bool) \<Rightarrow> 'a list \<Rightarrow> error + 'a list" where
  "filter_rows criterion [] = Inr []"
| "filter_rows criterion (x # xs) =
     (case criterion x of
        Inl e \<Rightarrow> Inl e
      | Inr b \<Rightarrow>
          (case filter_rows criterion xs of
             Inl e \<Rightarrow> Inl e
           | Inr ys \<Rightarrow> Inr (if b then x # ys else ys)))"

record search_results =
  results :: "Record_loaded list"
  total :: nat

text \<open>
  \<^verbatim>\<open>records_query.count()\<close> runs the filter over the whole table; the second
  statement, for the page, has \<open>skip\<close> and \<open>limit\<close> as parameters.
\<close>

definition search_records :: "database \<Rightarrow> string \<Rightarrow> int \<Rightarrow> int \<Rightarrow> error + search_results" where
  "search_records db query skip limit =
     (let search = ''%'' @ query @ ''%''
      in (case filter_rows (search_filter db search) (records db) of
            Inl e \<Rightarrow> Inl e
          | Inr records_query \<Rightarrow>
              (if int64 skip \<and> int64 limit
               then Inr \<lparr>results = map (load db) (offset_limit skip limit records_query),
                         total = length records_query\<rparr>
               else Inl OverflowError)))"

subsection \<open>Request schemas (api/schemas.py)\<close>

text \<open>
  The schemas declare types and required fields and nothing else: there is no length or
  range constraint on any field. So every value of the types below is a request that
  passes validation and reaches \<^verbatim>\<open>crud.py\<close>. In \<^verbatim>\<open>RecordUpdate\<close> every field is
  optional with default \<^verbatim>\<open>None\<close>; the outer \<open>option\<close> says whether the request set
  the field (\<^verbatim>\<open>exclude_unset\<close> drops the others), the inner one is the value, which
  may be \<^verbatim>\<open>None\<close>.
\<close>

record TrackCreate =
  tc_title :: string
  tc_position :: "string option"
  tc_duration :: "string option"

record RecordCreate =
  c_title :: string
  c_artist :: string
  c_release_date :: "date option"
  c_label :: "string option"
  c_catalog_number :: "string option"
  c_format :: "string option"
  c_condition :: "string option"
  c_purchase_date :: "date option"
  c_purchase_price :: "real option"
  c_album_art_url :: "string option"
  c_notes :: "string option"
  c_discogs_url :: "string option"
  c_review_url :: "string option"
  c_genres :: "string list option"
  c_tracks :: "TrackCreate list option"

record RecordUpdate =
  u_title :: "string option option"
  u_artist :: "string option option"
  u_release_date :: "date option option"
  u_label :: "string option option"
  u_catalog_number :: "string option option"
  u_format :: "string option option"
  u_condition :: "string option option"
  u_purchase_date :: "date option option"
  u_purchase_price :: "real option option"
  u_album_art_url :: "string option option"
  u_notes :: "string option option"
  u_discogs_url :: "string option option"
  u_review_url :: "string option option"
  u_genres :: "string list option option"
  u_tracks :: "TrackCreate list option option"

text \<open>
  What a loop over track data holds in its variable \<^verbatim>\<open>track_data\<close>: a
  \<^verbatim>\<open>TrackCreate\<close> object (\<^verbatim>\<open>create_record\<close> iterates \<^verbatim>\<open>record.tracks\<close>), or the
  plain dictionary that \<^verbatim>\<open>record_update.dict(exclude_unset=True)\<close> makes of one
  (\<^verbatim>\<open>.dict()\<close> converts nested models too). \<^verbatim>\<open>track_data.title\<close> reads an
  attribute: a dictionary has keys, not attributes, and the read raises.
\<close>

datatype track_data = Model TrackCreate | Dict TrackCreate

fun getattr :: "track_data \<Rightarrow> (TrackCreate \<Rightarrow> 'a) \<Rightarrow> error + 'a" where
  "getattr (Model t) field = Inr (field t)"
| "getattr (Dict t) field = Inl AttributeError"

subsection \<open>Writing: genres\<close>

definition get_genre_by_name :: "database \<Rightarrow> string \<Rightarrow> Genre option" where
  "get_genre_by_name db name = find (\<lambda>g. g_name g = name) (genres db)"

text \<open>
  \<^verbatim>\<open>Genre(name=genre_name); db.add(genre); db.flush()\<close>: the row is inserted at once,
  so a later lookup in the same loop finds it.
\<close>

definition add_genre :: "database \<Rightarrow> string \<Rightarrow> database \<times> Genre" where
  "add_genre db name =
     (let genre = \<lparr>g_id = next_id (map g_id (genres db)), g_name = name\<rparr>
      in (db\<lparr>genres := genres db @ [genre]\<rparr>, genre))"

text \<open>
  The relationship between records and genres is declared on both sides, each naming the
  other in \<^verbatim>\<open>back_populates\<close> (models.py, lines 41 and 56). So every change of the list
  \<^verbatim>\<open>Record.genres\<close> is mirrored to the collection \<^verbatim>\<open>records\<close> of the genre concerned.
  \<^verbatim>\<open>crud.py\<close> never reads that collection, and of a collection that is not loaded the
  mapper only notes the changes: a set of added and a set of removed members. An append
  takes back a noted removal of the same member, and is noted as an addition otherwise; a
  removal does the converse. One request changes the genres of one record only, so the
  notes are kept here as the genres (their ids) in whose collection that record is noted.
\<close>

record pending_mutations =
  added_items :: "int set"
  deleted_items :: "int set"

definition no_pending :: pending_mutations where
  "no_pending = \<lparr>added_items = {}, deleted_items = {}\<rparr>"

definition pending_append :: "int \<Rightarrow> pending_mutations \<Rightarrow> pending_mutations" where
  "pending_append g p =
     (if g \<in> deleted_items p then p\<lparr>deleted_items := deleted_items p - {g}\<rparr>
      else p\<lparr>added_items := insert g (added_items p)\<rparr>)"

definition pending_remove :: "int \<Rightarrow> pending_mutations \<Rightarrow> pending_mutations" where
  "pending_remove g p =
     (if g \<in> added_items p then p\<lparr>added_items := added_items p - {g}\<rparr>
      else p\<lparr>deleted_items := insert g (deleted_items p)\<rparr>)"

text \<open>
  A flush writes the relationship from the side of the genres: the mapper takes the side
  \<^verbatim>\<open>Genre.records\<close> before the side \<^verbatim>\<open>Record.genres\<close> and skips on the second the
  pairs it has written on the first, and every change of \<^verbatim>\<open>Record.genres\<close> in
  \<^verbatim>\<open>crud.py\<close> is noted on the genre's side, so nothing is left for the second. The
  flush deletes the association rows of the removals, then inserts one row for each
  addition; the pair is the table's primary key, so the engine refuses a row that is in
  the table already. After the flush nothing is noted any more.
\<close>

definition flush_genres :: "int \<Rightarrow> pending_mutations \<Rightarrow> (int \<times> int) set \<Rightarrow> error + (int \<times> int) set" where
  "flush_genres rid p es =
     (let es1 = es - Pair rid ` deleted_items p
      in if Pair rid ` added_items p \<inter> es1 = {} then Inr (es1 \<union> Pair rid ` added_items p)
         else Inl IntegrityError)"

subsection \<open>Writing: tracks\<close>

text \<open>\<^verbatim>\<open>Track(record_id=..., title=track_data.title, position=..., duration=...)\<close>\<close>

definition new_Track :: "track_data \<Rightarrow> error + TrackCreate" where
  "new_Track track_data =
     (case getattr track_data tc_title of Inl e \<Rightarrow> Inl e | Inr ti \<Rightarrow>
      (case getattr track_data tc_position of Inl e \<Rightarrow> Inl e | Inr po \<Rightarrow>
       (case getattr track_data tc_duration of Inl e \<Rightarrow> Inl e | Inr du \<Rightarrow>
          Inr \<lparr>tc_title = ti, tc_position = po, tc_duration = du\<rparr>)))"

text \<open>The loop \<^verbatim>\<open>for track_data in ...: track = Track(...); db.add(track)\<close>.\<close>

fun add_tracks :: "track_data list \<Rightarrow> error + TrackCreate list" where
  "add_tracks [] = Inr []"
| "add_tracks (track_data # rest) =
     (case new_Track track_data of Inl e \<Rightarrow> Inl e | Inr track \<Rightarrow>
      (case add_tracks rest of Inl e \<Rightarrow> Inl e | Inr pending \<Rightarrow> Inr (track # pending)))"

text \<open>The pending tracks are inserted at the commit, in the order they were added.\<close>

fun insert_tracks :: "int \<Rightarrow> TrackCreate list \<Rightarrow> Track list \<Rightarrow> Track list" where
  "insert_tracks rid [] tbl = tbl"
| "insert_tracks rid (t # ts) tbl =
     insert_tracks rid ts
       (tbl @ [\<lparr>t_id = next_id (map t_id tbl), t_record_id = rid, t_title = tc_title t,
                t_position = tc_position t, t_duration = tc_duration t\<rparr>])"

subsection \<open>create\_record\<close>

text \<open>The loop of lines 56 to 63; \<open>db_genres\<close> is the list it appends to.\<close>

fun create_genres :: "string list \<Rightarrow> database \<Rightarrow> Genre list \<Rightarrow> database \<times> Genre list" where
  "create_genres [] db db_genres = (db, db_genres)"
| "create_genres (genre_name # rest) db db_genres =
     (case get_genre_by_name db genre_name of
        Some genre \<Rightarrow> create_genres rest db (db_genres @ [genre])
      | None \<Rightarrow>
          (case add_genre db genre_name of
             (db', genre) \<Rightarrow> create_genres rest db' (db_genres @ [genre])))"

text \<open>\<^verbatim>\<open>Record(title=record.title, ..., genres=db_genres)\<close>, lines 66 to 81, with the id
  and the two column defaults that the insert of line 83 fills in.\<close>

definition new_Record :: "int \<Rightarrow> RecordCreate \<Rightarrow> date \<Rightarrow> Record" where
  "new_Record rid record utcnow =
     \<lparr>r_id = rid,
      r_title = c_title record,
      r_artist = c_artist record,
      r_release_date = c_release_date record,
      r_label = c_label record,
      r_catalog_number = c_catalog_number record,
      r_format = c_format record,
      r_condition = c_condition record,
      r_purchase_date = c_purchase_date record,
      r_purchase_price = c_purchase_price record,
      r_album_art_url = c_album_art_url record,
      r_notes = c_notes record,
      r_discogs_url = c_discogs_url record,
      r_review_url = c_review_url record,
      r_created_at = utcnow,
      r_updated_at = utcnow\<rparr>"

text \<open>
  \<open>utcnow\<close> is the date of \<^verbatim>\<open>datetime.utcnow()\<close>, the column default of
  \<^verbatim>\<open>created_at\<close> and \<^verbatim>\<open>updated_at\<close>. \<^verbatim>\<open>if record.genres:\<close> skips the loop for
  \<^verbatim>\<open>None\<close> and for the empty list, on which the loop does nothing.
  \<^verbatim>\<open>Record(..., genres=db_genres)\<close> appends the members of \<open>db_genres\<close> one by one to
  the new record's list. The flush of line 83 inserts the record and writes the
  relationship; the result is the object after \<^verbatim>\<open>db.refresh\<close>, read from the committed
  tables.
\<close>

definition create_record :: "database \<Rightarrow> RecordCreate \<Rightarrow> date \<Rightarrow> error + (database \<times> Record_loaded)" where
  "create_record db record utcnow =
     (case (case c_genres record of None \<Rightarrow> (db, []) | Some names \<Rightarrow> create_genres names db []) of
        (db1, db_genres) \<Rightarrow>
          (let db_record = new_Record (next_id (map r_id (records db1))) record utcnow
           in (case flush_genres (r_id db_record)
                       (fold pending_append (map g_id db_genres) no_pending) (record_genre db1) of
                 Inl e \<Rightarrow> Inl e
               | Inr edges \<Rightarrow>
                   (case add_tracks (case c_tracks record of None \<Rightarrow> [] | Some ts \<Rightarrow> map Model ts) of
                      Inl e \<Rightarrow> Inl e
                    | Inr pending \<Rightarrow>
                        (let db2 = db1\<lparr>records := records db1 @ [db_record],
                                       record_genre := edges,
                                       tracks := insert_tracks (r_id db_record) pending (tracks db1)\<rparr>
                         in Inr (db2, load db2 db_record))))))"

subsection \<open>update\_record\<close>

text \<open>
  The loop of lines 116 to 122; \<open>p\<close> is what is noted since the last flush. The
  \<^verbatim>\<open>db.flush()\<close> after a new genre flushes the whole session, the relationship
  included.
\<close>

fun update_genres :: "int \<Rightarrow> string list \<Rightarrow> database \<Rightarrow> pending_mutations \<Rightarrow> error + (database \<times> pending_mutations)" where
  "update_genres rid [] db p = Inr (db, p)"
| "update_genres rid (genre_name # rest) db p =
     (case get_genre_by_name db genre_name of
        Some genre \<Rightarrow> update_genres rid rest db (pending_append (g_id genre) p)
      | None \<Rightarrow>
          (case flush_genres rid p (record_genre db) of
             Inl e \<Rightarrow> Inl e
           | Inr edges \<Rightarrow>
               (case add_genre (db\<lparr>record_genre := edges\<rparr>) genre_name of
                  (db', genre) \<Rightarrow>
                    update_genres rid rest db' (pending_append (g_id genre) no_pending))))"

text \<open>
  Lines 113 to 122. Without a \<^verbatim>\<open>genres\<close> key nothing is noted. With the key,
  \<^verbatim>\<open>db_record.genres = []\<close> loads the old list and removes each of its members, and
  the loop runs over the value, which raises when the value is \<^verbatim>\<open>None\<close>. The result is
  the database and what is still to be flushed at the commit.
\<close>

definition handle_genres :: "int \<Rightarrow> Record_loaded \<Rightarrow> string list option option \<Rightarrow> database \<Rightarrow> error + (database \<times> pending_mutations)" where
  "handle_genres rid db_record gs db =
     (case gs of
        None \<Rightarrow> Inr (db, no_pending)
      | Some None \<Rightarrow> Inl TypeError
      | Some (Some names) \<Rightarrow>
          update_genres rid names db
            (fold pending_remove (map g_id (o_genres db_record)) no_pending))"

text \<open>
  Lines 125 to 137: the bulk \<^verbatim>\<open>DELETE\<close> of the record's tracks, then the loop over the
  track data of the dictionary. The result is the table after the delete and the pending
  tracks.
\<close>

definition handle_tracks :: "int \<Rightarrow> TrackCreate list option option \<Rightarrow> Track list \<Rightarrow> error + (Track list \<times> TrackCreate list)" where
  "handle_tracks rid ts tbl =
     (case ts of
        None \<Rightarrow> Inr (tbl, [])
      | Some None \<Rightarrow> Inl TypeError
      | Some (Some tracks_data) \<Rightarrow>
          (case add_tracks (map Dict tracks_data) of
             Inl e \<Rightarrow> Inl e
           | Inr pending \<Rightarrow> Inr (filter (\<lambda>t. t_record_id t \<noteq> rid) tbl, pending)))"

text \<open>Lines 140 and 141, \<^verbatim>\<open>setattr\<close> for every remaining key; a \<^verbatim>\<open>None\<close> for
  \<open>title\<close> or \<open>artist\<close> is refused at the flush (\<open>not_null_violation\<close>).\<close>

definition set_column :: "'a option \<Rightarrow> 'a \<Rightarrow> 'a" where
  "set_column v old = (case v of None \<Rightarrow> old | Some new \<Rightarrow> new)"

definition set_required :: "'a option option \<Rightarrow> 'a \<Rightarrow> 'a" where
  "set_required v old = (case v of Some (Some new) \<Rightarrow> new | _ \<Rightarrow> old)"

definition setattrs :: "RecordUpdate \<Rightarrow> Record \<Rightarrow> Record" where
  "setattrs u r =
     r\<lparr>r_title := set_required (u_title u) (r_title r),
       r_artist := set_required (u_artist u) (r_artist r),
       r_release_date := set_column (u_release_date u) (r_release_date r),
       r_label := set_column (u_label u) (r_label r),
       r_catalog_number := set_column (u_catalog_number u) (r_catalog_number r),
       r_format := set_column (u_format u) (r_format r),
       r_condition := set_column (u_condition u) (r_condition r),
       r_purchase_date := set_column (u_purchase_date u) (r_purchase_date r),
       r_purchase_price := set_column (u_purchase_price u) (r_purchase_price r),
       r_album_art_url := set_column (u_album_art_url u) (r_album_art_url r),
       r_notes := set_column (u_notes u) (r_notes r),
       r_discogs_url := set_column (u_discogs_url u) (r_discogs_url r),
       r_review_url := set_column (u_review_url u) (r_review_url r)\<rparr>"

definition not_null_violation :: "RecordUpdate \<Rightarrow> bool" where
  "not_null_violation u = (u_title u = Some None \<or> u_artist u = Some None)"

text \<open>
  Line 144 and the \<^verbatim>\<open>UPDATE\<close> of the commit. \<open>today\<close> is \<^verbatim>\<open>date.today()\<close>, the
  local date; \<open>utcnow\<close> is the date of \<^verbatim>\<open>datetime.utcnow()\<close>, the column's
  \<^verbatim>\<open>onupdate\<close>. The mapper writes the columns whose value changed. An assignment of
  the value a column already has is no change, and a column with \<^verbatim>\<open>onupdate\<close> that is
  not among the written ones takes its \<^verbatim>\<open>onupdate\<close> value when the row is written.
\<close>

definition touch :: "Record \<Rightarrow> Record \<Rightarrow> date \<Rightarrow> date \<Rightarrow> Record" where
  "touch old new today utcnow =
     (if today \<noteq> r_updated_at old then new\<lparr>r_updated_at := today\<rparr>
      else if new \<noteq> old then new\<lparr>r_updated_at := utcnow\<rparr>
      else new)"

definition update_record :: "database \<Rightarrow> int \<Rightarrow> RecordUpdate \<Rightarrow> date \<Rightarrow> date \<Rightarrow> error + (database \<times> Record_loaded option)" where
  "update_record db record_id record_update today utcnow =
     (case get_record db record_id of
        Inl e \<Rightarrow> Inl e
      | Inr None \<Rightarrow> Inr (db, None)
      | Inr (Some db_record) \<Rightarrow>
          (case handle_genres record_id db_record (u_genres record_update) db of
             Inl e \<Rightarrow> Inl e
           | Inr (db1, p) \<Rightarrow>
               (case handle_tracks record_id (u_tracks record_update) (tracks db1) of
                  Inl e \<Rightarrow> Inl e
                | Inr (tbl, pending) \<Rightarrow>
                    (if not_null_violation record_update then Inl IntegrityError
                     else
                       (case flush_genres record_id p (record_genre db1) of
                          Inl e \<Rightarrow> Inl e
                        | Inr edges \<Rightarrow>
                            (let row = touch (o_columns db_record)
                                         (setattrs record_update (o_columns db_record)) today utcnow;
                                 db2 = db1\<lparr>records := map (\<lambda>r. if r_id r = record_id then row else r) (records db1),
                                           record_genre := edges,
                                           tracks := insert_tracks record_id pending tbl\<rparr>
                             in Inr (db2, Some (load db2 row))))))))"

subsection \<open>delete\_record\<close>

text \<open>
  \<^verbatim>\<open>db.delete(db_record)\<close> and the commit: the relationship \<^verbatim>\<open>tracks\<close> cascades
  (\<^verbatim>\<open>all, delete-orphan\<close>), so every loaded track is deleted by its id; the association
  rows of the loaded genres are deleted; the genres are not touched.
\<close>

definition delete_record :: "database \<Rightarrow> int \<Rightarrow> error + (database \<times> bool)" where
  "delete_record db record_id =
     (case get_record db record_id of
        Inl e \<Rightarrow> Inl e
      | Inr None \<Rightarrow> Inr (db, False)
      | Inr (Some db_record) \<Rightarrow>
          Inr (db\<lparr>records := filter (\<lambda>r. r_id r \<noteq> record_id) (records db),
                  tracks := filter (\<lambda>t. t_id t \<notin> set (map t_id (o_tracks db_record))) (tracks db),
                  record_genre :=
                    record_genre db - Pair record_id ` set (map g_id (o_genres db_record))\<rparr>,
               True))"

subsection \<open>The constraints of the schema\<close>

text \<open>
  What the engine and the operations keep true of the tables: the primary keys (ids
  ascending in rowid order), the \<^verbatim>\<open>unique\<close> genre names, and that tracks and
  association rows refer to rows that exist. The record ids are 64-bit integers, and
  the largest of these is not in use: a table that holds it is past the point up to
  which SQLite gives a new row the largest id plus one, and outside this development.
\<close>

definition wf_db :: "database \<Rightarrow> bool" where
  "wf_db db \<longleftrightarrow>
     sorted_wrt (<) (map r_id (records db)) \<and>
     sorted_wrt (<) (map g_id (genres db)) \<and>
     sorted_wrt (<) (map t_id (tracks db)) \<and>
     distinct (map g_name (genres db)) \<and>
     list_all (\<lambda>r. int64 (r_id r) \<and> int64 (r_id r + 1)) (records db) \<and>
     fst ` record_genre db \<subseteq> set (map r_id (records db)) \<and>
     snd ` record_genre db \<subseteq> set (map g_id (genres db)) \<and>
     list_all (\<lambda>t. t_record_id t \<in> set (map r_id (records db))) (tracks db)"

subsection \<open>The specification's search rule\<close>

text \<open>
  The rule as the specification words it: the query appears, case-insensitively, as a
  substring of the title, the artist, the label, the catalogue number, or of the name of
  one of the record's genres. Among the characters of this development the letters with
  two cases are A to Z and the accented capitals from code point 192 to 222 (without the
  multiplication sign, 215); each is 32 below its small letter, as Python's
  \<^verbatim>\<open>str.lower\<close> has it.
\<close>

definition casefold_char :: "char \<Rightarrow> char" where
  "casefold_char c =
     (let n = of_char c :: int
      in if (65 \<le> n \<and> n \<le> 90) \<or> (192 \<le> n \<and> n \<le> 222 \<and> n \<noteq> 215) then char_of (n + 32) else c)"

definition contains_ci :: "string \<Rightarrow> string \<Rightarrow> bool" where
  "contains_ci query s = sublist (map casefold_char query) (map casefold_char s)"

definition spec_matches :: "database \<Rightarrow> string \<Rightarrow> Record \<Rightarrow> bool" where
  "spec_matches db query r =
     (contains_ci query (r_title r) \<or>
      contains_ci query (r_artist r) \<or>
      (case r_label r of None \<Rightarrow> False | Some s \<Rightarrow> contains_ci query s) \<or>
      (case r_catalog_number r of None \<Rightarrow> False | Some s \<Rightarrow> contains_ci query s) \<or>
      list_ex (\<lambda>g. contains_ci query (g_name g)) (genres_of db (r_id r)))"

text \<open>
  The rule that \<open>search_records\<close> follows on the queries it takes literally: the
  letters A to Z are folded and no others, and a field is read up to its first NUL
  character.
\<close>

definition contains_az :: "string \<Rightarrow> string \<Rightarrow> bool" where
  "contains_az query s = sublist (lower query) (lower (c_string s))"

definition substring_matches :: "database \<Rightarrow> string \<Rightarrow> Record \<Rightarrow> bool" where
  "substring_matches db query r =
     (contains_az query (r_title r) \<or>
      contains_az query (r_artist r) \<or>
      (case r_label r of None \<Rightarrow> False | Some s \<Rightarrow> contains_az query s) \<or>
      (case r_catalog_number r of None \<Rightarrow> False | Some s \<Rightarrow> contains_az query s) \<or>
      list_ex (\<lambda>g. contains_az query (g_name g)) (genres_of db (r_id r)))"

text \<open>The request fields of a stored track.\<close>

definition track_fields :: "Track \<Rightarrow> TrackCreate" where
  "track_fields t =
     \<lparr>tc_title = t_title t, tc_position = t_position t, tc_duration = t_duration t\<rparr>"

text \<open>The names a create request asks for.\<close>

definition genre_names :: "RecordCreate \<Rightarrow> string list" where
  "genre_names record = (case c_genres record of None \<Rightarrow> [] | Some names \<Rightarrow> names)"

definition track_list :: "RecordCreate \<Rightarrow> TrackCreate list" where
  "track_list record = (case c_tracks record of None \<Rightarrow> [] | Some ts \<Rightarrow> ts)"

subsection \<open>Example data\<close>

text \<open>The request of the specification's scenario, and the database it leaves behind
  when it is the first request, made on day 739000.\<close>

definition ex_create :: RecordCreate where
  "ex_create =
     \<lparr>c_title = ''Test Album'', c_artist = ''Test Artist'', c_release_date = None,
      c_label = Some ''Test Label'', c_catalog_number = None, c_format = None,
      c_condition = None, c_purchase_date = None, c_purchase_price = None,
      c_album_art_url = None, c_notes = None, c_discogs_url = None, c_review_url = None,
      c_genres = Some [''Rock'', ''Pop''],
      c_tracks = Some [\<lparr>tc_title = ''Track 1'', tc_position = Some ''A1'', tc_duration = None\<rparr>,
                       \<lparr>tc_title = ''Track 2'', tc_position = Some ''A2'', tc_duration = None\<rparr>]\<rparr>"

definition ex_row :: Record where
  "ex_row =
     \<lparr>r_id = 1, r_title = ''Test Album'', r_artist = ''Test Artist'', r_release_date = None,
      r_label = Some ''Test Label'', r_catalog_number = None, r_format = None,
      r_condition = None, r_purchase_date = None, r_purchase_price = None,
      r_album_art_url = None, r_notes = None, r_discogs_url = None, r_review_url = None,
      r_created_at = 739000, r_updated_at = 739000\<rparr>"

definition ex_db :: database where
  "ex_db =
     \<lparr>records = [ex_row],
      genres = [\<lparr>g_id = 1, g_name = ''Rock''\<rparr>, \<lparr>g_id = 2, g_name = ''Pop''\<rparr>],
      tracks = [\<lparr>t_id = 1, t_record_id = 1, t_title = ''Track 1'', t_position = Some ''A1'',
                 t_duration = None\<rparr>,
                \<lparr>t_id = 2, t_record_id = 1, t_title = ''Track 2'', t_position = Some ''A2'',
                 t_duration = None\<rparr>],
      record_genre = {(1, 1), (1, 2)}\<rparr>"

text \<open>A second request, made the next day on the database of the first.\<close>

definition ex_create2 :: RecordCreate where
  "ex_create2 =
     \<lparr>c_title = ''Second Album'', c_artist = ''Other Artist'', c_release_date = None,
      c_label = None, c_catalog_number = Some ''CAT-2'', c_format = None,
      c_condition = None, c_purchase_date = None, c_purchase_price = Some 5,
      c_album_art_url = None, c_notes = None, c_discogs_url = None, c_review_url = None,
      c_genres = Some [''Rock'', ''Jazz''],
      c_tracks = Some [\<lparr>tc_title = ''Solo'', tc_position = None, tc_duration = Some ''3:45''\<rparr>]\<rparr>"

definition ex_row2 :: Record where
  "ex_row2 =
     \<lparr>r_id = 2, r_title = ''Second Album'', r_artist = ''Other Artist'', r_release_date = None,
      r_label = None, r_catalog_number = Some ''CAT-2'', r_format = None,
      r_condition = None, r_purchase_date = None, r_purchase_price = Some 5,
      r_album_art_url = None, r_notes = None, r_discogs_url = None, r_review_url = None,
      r_created_at = 739001, r_updated_at = 739001\<rparr>"

definition ex_db2 :: database where
  "ex_db2 =
     \<lparr>records = [ex_row, ex_row2],
      genres = [\<lparr>g_id = 1, g_name = ''Rock''\<rparr>, \<lparr>g_id = 2, g_name = ''Pop''\<rparr>,
                \<lparr>g_id = 3, g_name = ''Jazz''\<rparr>],
      tracks = [\<lparr>t_id = 1, t_record_id = 1, t_title = ''Track 1'', t_position = Some ''A1'',
                 t_duration = None\<rparr>,
                \<lparr>t_id = 2, t_record_id = 1, t_title = ''Track 2'', t_position = Some ''A2'',
                 t_duration = None\<rparr>,
                \<lparr>t_id = 3, t_record_id = 2, t_title = ''Solo'', t_position = None,
                 t_duration = Some ''3:45''\<rparr>],
      record_genre = {(1, 1), (1, 2), (2, 1), (2, 3)}\<rparr>"

text \<open>An update request that sets the title and the genres.\<close>

definition ex_update :: RecordUpdate where
  "ex_update =
     \<lparr>u_title = Some (Some ''Updated Title''), u_artist = None, u_release_date = None,
      u_label = None, u_catalog_number = None, u_format = None, u_condition = None,
      u_purchase_date = None, u_purchase_price = None, u_album_art_url = None, u_notes = None,
      u_discogs_url = None, u_review_url = None, u_genres = Some (Some [''Jazz'']),
      u_tracks = None\<rparr>"

text \<open>The first request with a genre name twice and the database it leaves behind, and
  the first request with a negative price.\<close>

definition ex_create_duplicate :: RecordCreate where
  "ex_create_duplicate = ex_create\<lparr>c_genres := Some [''Rock'', ''Rock'']\<rparr>"

definition ex_db_duplicate :: database where
  "ex_db_duplicate = ex_db\<lparr>genres := [\<lparr>g_id = 1, g_name = ''Rock''\<rparr>], record_genre := {(1, 1)}\<rparr>"

definition ex_create_negative :: RecordCreate where
  "ex_create_negative = ex_create\<lparr>c_purchase_price := Some (- 1)\<rparr>"

text \<open>Update requests: one that sets nothing, the one of the repository's own test
  \<^verbatim>\<open>test_update_record\<close> (api/tests.py), one that sets the title only, and one that
  sets the genres to \<^verbatim>\<open>["Rock", "Rock"]\<close>.\<close>

definition no_update :: RecordUpdate where
  "no_update =
     \<lparr>u_title = None, u_artist = None, u_release_date = None, u_label = None,
      u_catalog_number = None, u_format = None, u_condition = None, u_purchase_date = None,
      u_purchase_price = None, u_album_art_url = None, u_notes = None, u_discogs_url = None,
      u_review_url = None, u_genres = None, u_tracks = None\<rparr>"

definition ex_update_test :: RecordUpdate where
  "ex_update_test =
     no_update\<lparr>u_title := Some (Some ''Updated Title''),
               u_artist := Some (Some ''Updated Artist''),
               u_genres := Some (Some [''Jazz'', ''Blues'']),
               u_tracks := Some (Some [\<lparr>tc_title = ''New Track'', tc_position = Some ''B1'',
                                         tc_duration = Some ''5:00''\<rparr>])\<rparr>"

definition ex_retitle :: RecordUpdate where
  "ex_retitle = no_update\<lparr>u_title := Some (Some ''Updated Title'')\<rparr>"

definition ex_update_repeated :: RecordUpdate where
  "ex_update_repeated = no_update\<lparr>u_genres := Some (Some [''Rock'', ''Rock''])\<rparr>"

text \<open>The database after \<open>ex_update\<close> on record 1 of \<open>ex_db2\<close>, made on day 739002.\<close>

definition ex_row_updated :: Record where
  "ex_row_updated = ex_row\<lparr>r_title := ''Updated Title'', r_updated_at := 739002\<rparr>"

definition ex_db3 :: database where
  "ex_db3 = ex_db2\<lparr>records := [ex_row_updated, ex_row2],
                   record_genre := {(2, 1), (2, 3), (1, 3)}\<rparr>"

text \<open>Two databases for the search: the example record with a NUL character in its
  title, and with a title of three letters, the first and the last of which are the
  small letter e with an acute accent (code point 233; its capital is code point 201).\<close>

definition ex_db_nul :: database where
  "ex_db_nul = ex_db\<lparr>records := [ex_row\<lparr>r_title := ''ab'' @ [CHR 0x00] @ ''cd''\<rparr>]\<rparr>"

definition ex_db_accent :: database where
  "ex_db_accent = ex_db\<lparr>records := [ex_row\<lparr>r_title := [CHR 0xE9, CHR ''t'', CHR 0xE9]\<rparr>]\<rparr>"

subsection \<open>Notions for the proofs\<close>

text \<open>The genre ids a record is linked to, the ids of the genres with one of the given
  names, and that the association rows of every other record are the same.\<close>

definition linked :: "(int \<times> int) set \<Rightarrow> int \<Rightarrow> int set" where
  "linked es rid = {g. (rid, g) \<in> es}"

definition named :: "Genre list \<Rightarrow> string list \<Rightarrow> int set" where
  "named tbl names = g_id ` {g \<in> set tbl. g_name g \<in> set names}"

definition others_kept :: "int \<Rightarrow> (int \<times> int) set \<Rightarrow> (int \<times> int) set \<Rightarrow> bool" where
  "others_kept rid es es' = (\<forall>r g. r \<noteq> rid \<longrightarrow> ((r, g) \<in> es' \<longleftrightarrow> (r, g) \<in> es))"

section \<open>Properties\<close>

lemma load_sel [simp]:
  "o_columns (load db r) = r"
  "o_genres (load db r) = genres_of db (r_id r)"
  "o_tracks (load db r) = tracks_of db (r_id r)"
  by (simp_all add: load_def)

lemma offset_limit_map: "offset_limit skip limit (map f xs) = map f (offset_limit skip limit xs)"
  by (simp add: offset_limit_def take_map drop_map)

lemma sorted_wrt_offset_limit:
  "sorted_wrt P xs \<Longrightarrow> sorted_wrt P (offset_limit skip limit xs)"
  by (simp add: offset_limit_def sorted_wrt_take sorted_wrt_drop)

lemma int64_small [simp]: "int64 0" "int64 1" "int64 (- 1)" "int64 100" "int64 2" "int64 999"
  by (simp_all add: int64_def)

lemma get_records_all: "get_records db 0 (- 1) = Inr (map (load db) (records db))"
  by (simp add: get_records_def offset_limit_def)

lemma filter_loaded:
  "filter (\<lambda>ob. P (o_columns ob)) (map (load db) xs) = map (load db) (filter P xs)"
  by (induction xs) simp_all

lemma sorted_ids_filter:
  "sorted_wrt (<) (map r_id xs) \<Longrightarrow> sorted_wrt (<) (map r_id (filter P xs))"
  by (induction xs) auto

lemma ex_db_created: "create_record empty_db ex_create 739000 = Inr (ex_db, load ex_db ex_row)"
  by code_simp

lemma wf_ex_db: "wf_db ex_db"
  by code_simp

subsection \<open>LIKE patterns\<close>

lemma like_percent_only: "like s ''%''"
  by (induction s) auto

text \<open>A pattern that starts with literal characters matches the strings that start
  with them and go on to match the rest.\<close>

lemma like_literal:
  "CHR ''%'' \<notin> set q \<Longrightarrow> CHR ''_'' \<notin> set q \<Longrightarrow>
   like s (q @ ps) \<longleftrightarrow> (\<exists>t. s = q @ t \<and> like t ps)"
proof (induction q arbitrary: s)
  case Nil
  then show ?case by simp
next
  case (Cons c q)
  then show ?case by (cases s) auto
qed

lemma like_percent: "like s (CHR ''%'' # ps) \<longleftrightarrow> (\<exists>a b. s = a @ b \<and> like b ps)"
proof (induction s)
  case Nil
  then show ?case by simp
next
  case (Cons c s)
  show ?case
  proof
    assume "like (c # s) (CHR ''%'' # ps)"
    then consider "like (c # s) ps" | "like s (CHR ''%'' # ps)" by auto
    then show "\<exists>a b. c # s = a @ b \<and> like b ps"
    proof cases
      case 1
      then have "c # s = [] @ (c # s) \<and> like (c # s) ps" by simp
      then show ?thesis by blast
    next
      case 2
      with Cons.IH obtain a b where "s = a @ b" "like b ps" by blast
      then have "c # s = (c # a) @ b \<and> like b ps" by simp
      then show ?thesis by blast
    qed
  next
    assume "\<exists>a b. c # s = a @ b \<and> like b ps"
    then obtain a b where ab: "c # s = a @ b" "like b ps" by blast
    show "like (c # s) (CHR ''%'' # ps)"
    proof (cases a)
      case Nil
      with ab show ?thesis by simp
    next
      case (Cons x a')
      with ab have "s = a' @ b" by simp
      with ab(2) Cons.IH have "like s (CHR ''%'' # ps)" by blast
      then show ?thesis by simp
    qed
  qed
qed

lemma like_contains:
  assumes "CHR ''%'' \<notin> set q" "CHR ''_'' \<notin> set q"
  shows "like s (CHR ''%'' # q @ ''%'') \<longleftrightarrow> sublist q s"
proof -
  have "like s (CHR ''%'' # q @ ''%'') \<longleftrightarrow> (\<exists>a b. s = a @ b \<and> like b (q @ ''%''))"
    by (rule like_percent)
  also have "\<dots> \<longleftrightarrow> (\<exists>a b. s = a @ b \<and> (\<exists>t. b = q @ t \<and> like t ''%''))"
    using like_literal[OF assms] by simp
  also have "\<dots> \<longleftrightarrow> (\<exists>a t. s = a @ q @ t)"
    using like_percent_only by blast
  also have "\<dots> \<longleftrightarrow> sublist q s"
    by (auto simp: sublist_def)
  finally show ?thesis .
qed

lemma lower_char_percent:
  "lower_char c = CHR ''%'' \<longleftrightarrow> c = CHR ''%''"
  "CHR ''%'' = lower_char c \<longleftrightarrow> c = CHR ''%''"
  by (auto simp: lower_char_def)

lemma lower_char_underscore:
  "lower_char c = CHR ''_'' \<longleftrightarrow> c = CHR ''_''"
  "CHR ''_'' = lower_char c \<longleftrightarrow> c = CHR ''_''"
  by (auto simp: lower_char_def)

lemma lower_char_nul:
  "lower_char c = CHR 0x00 \<longleftrightarrow> c = CHR 0x00"
  "CHR 0x00 = lower_char c \<longleftrightarrow> c = CHR 0x00"
  by (auto simp: lower_char_def)

lemma lower_char_bytes: "(128 \<le> (of_char (lower_char c) :: int)) = (128 \<le> (of_char c :: int))"
  by (auto simp: lower_char_def)

lemma lower_percent_free: "CHR ''%'' \<in> set (lower q) \<longleftrightarrow> CHR ''%'' \<in> set q"
  by (induction q) (auto simp: lower_def lower_char_percent)

lemma lower_underscore_free: "CHR ''_'' \<in> set (lower q) \<longleftrightarrow> CHR ''_'' \<in> set q"
  by (induction q) (auto simp: lower_def lower_char_underscore)

lemma lower_nul_free: "CHR 0x00 \<in> set (lower q) \<longleftrightarrow> CHR 0x00 \<in> set q"
  by (induction q) (auto simp: lower_def lower_char_nul)

lemma lower_pattern: "lower (CHR ''%'' # q @ ''%'') = CHR ''%'' # lower q @ ''%''"
  by (simp add: lower_def lower_char_def)

lemma nbytes_lower: "nbytes (lower s) = nbytes s"
  by (induction s) (simp_all add: nbytes_def lower_def lower_char_bytes)

lemma nbytes_pattern: "nbytes (CHR ''%'' # q @ ''%'') = nbytes q + 2"
  by (simp add: nbytes_def)

lemma nbytes_replicate:
  "nbytes (replicate n c) = (if 128 \<le> (of_char c :: int) then 2 * int n else int n)"
  by (simp add: nbytes_def)

lemma c_string_lower: "c_string (lower s) = lower (c_string s)"
  by (induction s) (simp_all add: c_string_def lower_def lower_char_nul)

lemma c_string_nul_free: "CHR 0x00 \<notin> set s \<Longrightarrow> c_string s = s"
  by (induction s) (auto simp: c_string_def)

subsection \<open>The filter of the search\<close>

lemma sql_any_Inr:
  "(\<And>x. x \<in> set xs \<Longrightarrow> criterion x = Inr (P x)) \<Longrightarrow> sql_any criterion xs = Inr (list_ex P xs)"
  unfolding sql_any_def by (induction xs) simp_all

lemma filter_rows_Inr:
  "(\<And>x. x \<in> set xs \<Longrightarrow> criterion x = Inr (P x)) \<Longrightarrow> filter_rows criterion xs = Inr (filter P xs)"
  by (induction xs) simp_all

lemma filter_rows_Inl:
  "xs \<noteq> [] \<Longrightarrow> (\<And>x. criterion x = Inl e) \<Longrightarrow> filter_rows criterion xs = Inl e"
  by (cases xs) simp_all

text \<open>On a pattern made of a query without \<open>%\<close>, \<open>_\<close> and NUL and of fewer than
  49999 bytes, \<open>ilike\<close> is the search for a substring.\<close>

lemma ilike_contains:
  assumes "CHR ''%'' \<notin> set q" "CHR ''_'' \<notin> set q" "CHR 0x00 \<notin> set q" "nbytes q < 49999"
  shows "ilike (Some s) (CHR ''%'' # q @ ''%'') = Inr (contains_az q s)"
    and "ilike None (CHR ''%'' # q @ ''%'') = Inr False"
proof -
  have len: "\<not> 50000 < nbytes (lower (CHR ''%'' # q @ ''%''))"
    using assms(4) by (simp add: nbytes_lower nbytes_pattern)
  have pat: "c_string (lower (CHR ''%'' # q @ ''%'')) = CHR ''%'' # lower q @ ''%''"
    unfolding lower_pattern using assms(3)
    by (intro c_string_nul_free) (simp add: lower_nul_free)
  have "ilike (Some s) (CHR ''%'' # q @ ''%'')
        = Inr (like (c_string (lower s)) (c_string (lower (CHR ''%'' # q @ ''%''))))"
    using len by (simp add: ilike_def sqlite_like_def del: like.simps)
  also have "\<dots> = Inr (like (c_string (lower s)) (CHR ''%'' # lower q @ ''%''))"
    by (simp only: pat)
  also have "\<dots> = Inr (sublist (lower q) (c_string (lower s)))"
    using assms(1,2) like_contains[of "lower q" "c_string (lower s)"]
    by (simp add: lower_percent_free lower_underscore_free del: like.simps)
  also have "\<dots> = Inr (contains_az q s)"
    by (simp add: contains_az_def c_string_lower)
  finally show "ilike (Some s) (CHR ''%'' # q @ ''%'') = Inr (contains_az q s)" .
  show "ilike None (CHR ''%'' # q @ ''%'') = Inr False"
    using len by (simp add: ilike_def sqlite_like_def)
qed

lemma ilike_too_long:
  "49999 \<le> nbytes q \<Longrightarrow> ilike col (CHR ''%'' # q @ ''%'') = Inl OperationalError"
  by (simp add: ilike_def sqlite_like_def nbytes_lower nbytes_pattern)

lemma ilike_empty_query: "ilike (Some s) ''%%'' = Inr True"
proof -
  have "nbytes [] < 49999" "contains_az [] s"
    by (simp_all add: nbytes_def contains_az_def lower_def)
  with ilike_contains(1)[of "[]" s] show ?thesis by simp
qed

lemma search_filter_empty_query: "search_filter db ''%%'' r = Inr True"
  by (simp add: search_filter_def ilike_empty_query)

lemma search_filter_wildcard_free:
  assumes "CHR ''%'' \<notin> set query" "CHR ''_'' \<notin> set query" "CHR 0x00 \<notin> set query"
    and "nbytes query < 49999"
  shows "search_filter db (CHR ''%'' # query @ ''%'') r = Inr (substring_matches db query r)"
proof -
  note i = ilike_contains[OF assms]
  have any: "sql_any (\<lambda>g. ilike (Some (g_name g)) (CHR ''%'' # query @ ''%'')) (genres_of db (r_id r))
             = Inr (list_ex (\<lambda>g. contains_az query (g_name g)) (genres_of db (r_id r)))"
    by (rule sql_any_Inr) (rule i(1))
  show ?thesis
    unfolding search_filter_def substring_matches_def any
    by (cases "r_label r"; cases "r_catalog_number r") (simp_all add: i)
qed

lemma search_filter_too_long:
  "49999 \<le> nbytes query \<Longrightarrow> search_filter db (CHR ''%'' # query @ ''%'') r = Inl OperationalError"
  by (simp add: search_filter_def ilike_too_long)

text \<open>A query of 49999 bytes or more makes a pattern that \<^verbatim>\<open>LIKE\<close> refuses, on the
  first row it is tried on.\<close>

lemma search_records_too_long:
  assumes "49999 \<le> nbytes query" and "records db \<noteq> []"
  shows "search_records db query skip limit = Inl OperationalError"
proof -
  have "filter_rows (search_filter db (CHR ''%'' # query @ ''%'')) (records db) = Inl OperationalError"
    using assms(2) search_filter_too_long[OF assms(1)] by (rule filter_rows_Inl)
  then show ?thesis by (simp add: search_records_def)
qed

lemma search_filter_short:
  assumes "nbytes query < 49999"
  shows "\<exists>b. search_filter db (CHR ''%'' # query @ ''%'') r = Inr b"
proof -
  have "\<not> 50000 < nbytes (lower (CHR ''%'' # query @ ''%''))"
    using assms by (simp add: nbytes_lower nbytes_pattern)
  then have "\<exists>b. ilike col (CHR ''%'' # query @ ''%'') = Inr b" for col
    by (simp add: ilike_def sqlite_like_def)
  then obtain f where f: "\<And>col. ilike col (CHR ''%'' # query @ ''%'') = Inr (f col)" by metis
  have any: "sql_any (\<lambda>g. ilike (Some (g_name g)) (CHR ''%'' # query @ ''%'')) (genres_of db (r_id r))
        = Inr (list_ex (\<lambda>g. f (Some (g_name g))) (genres_of db (r_id r)))"
    by (rule sql_any_Inr) (rule f)
  show ?thesis
    unfolding search_filter_def any by (auto simp: f)
qed

lemma filter_rows_total:
  "(\<And>x. \<exists>b. criterion x = Inr b) \<Longrightarrow> \<exists>ys. filter_rows criterion xs = Inr ys"
proof (induction xs)
  case Nil
  show ?case by simp
next
  case (Cons x xs)
  from Cons.prems obtain b where "criterion x = Inr b" by blast
  moreover from Cons.IH[OF Cons.prems] obtain ys where "filter_rows criterion xs = Inr ys" by blast
  ultimately show ?case by simp
qed

text \<open>An offset or a limit that is no 64-bit integer makes the statement for the page
  raise.\<close>

lemma search_records_overflow:
  assumes "\<not> (int64 skip \<and> int64 limit)" and "nbytes query < 49999"
  shows "search_records db query skip limit = Inl OverflowError"
proof -
  from filter_rows_total[of "search_filter db (CHR ''%'' # query @ ''%'')" "records db"]
    search_filter_short[OF assms(2)]
  obtain rows where "filter_rows (search_filter db (CHR ''%'' # query @ ''%'')) (records db) = Inr rows"
    by blast
  with assms(1) show ?thesis by (simp add: search_records_def)
qed

lemma search_results_sorted:
  assumes "wf_db db"
  shows "sorted_wrt (<) (map (\<lambda>ob. r_id (o_columns ob))
           (map (load db) (offset_limit skip limit (filter P (records db)))))"
proof -
  have "sorted_wrt (<) (map r_id (records db))"
    using assms by (simp add: wf_db_def)
  then have "sorted_wrt (<) (map r_id (filter P (records db)))"
    by (rule sorted_ids_filter)
  then have "sorted_wrt (<) (offset_limit skip limit (map r_id (filter P (records db))))"
    by (rule sorted_wrt_offset_limit)
  then show ?thesis
    by (simp add: offset_limit_map comp_def)
qed

subsection \<open>Search\<close>

text \<open>
  Claim C3, as amended. Let the query contain none of \<open>%\<close>, \<open>_\<close> and the NUL
  character and have fewer than 49999 bytes, and let offset and limit be 64-bit integers.
  Then the matches of \<open>search_records\<close> are exactly the records in which the query
  appears as a substring, the letters A to Z folded, of the title, the artist, a label or
  catalogue number that is not null, or the name of one of the record's genres, each field
  read up to its first NUL character; \<open>total\<close> is the number of all matches, and
  \<open>results\<close> is the offset/limit page of the matches in the order in which
  \<open>get_records\<close> lists the records, which is ascending in the identifier when the
  tables satisfy their constraints.
\<close>

theorem search_records_substring:
  assumes "CHR ''%'' \<notin> set query" and "CHR ''_'' \<notin> set query" and "CHR 0x00 \<notin> set query"
    and "nbytes query < 49999" and "int64 skip" and "int64 limit"
  shows "\<exists>listed page.
           get_records db 0 (- 1) = Inr listed \<and>
           page = offset_limit skip limit
                    (filter (\<lambda>ob. substring_matches db query (o_columns ob)) listed) \<and>
           search_records db query skip limit =
             Inr \<lparr>results = page,
                  total = length (filter (substring_matches db query) (records db))\<rparr> \<and>
           (wf_db db \<longrightarrow> sorted_wrt (<) (map (\<lambda>ob. r_id (o_columns ob)) page))"
proof -
  let ?hits = "filter (substring_matches db query) (records db)"
  let ?page = "map (load db) (offset_limit skip limit ?hits)"
  have "filter_rows (search_filter db (CHR ''%'' # query @ ''%'')) (records db) = Inr ?hits"
    by (rule filter_rows_Inr) (rule search_filter_wildcard_free[OF assms(1-4)])
  then have s: "search_records db query skip limit = Inr \<lparr>results = ?page, total = length ?hits\<rparr>"
    using assms(5,6) by (simp add: search_records_def)
  have p: "?page = offset_limit skip limit
                    (filter (\<lambda>ob. substring_matches db query (o_columns ob)) (map (load db) (records db)))"
    by (simp add: filter_loaded offset_limit_map)
  have o: "wf_db db \<longrightarrow> sorted_wrt (<) (map (\<lambda>ob. r_id (o_columns ob)) ?page)"
    using search_results_sorted by blast
  from get_records_all s p o show ?thesis by blast
qed

theorem search_records_substring_witness:
  "CHR ''%'' \<notin> set ''test'' \<and> CHR ''_'' \<notin> set ''test'' \<and> CHR 0x00 \<notin> set ''test'' \<and>
   nbytes ''test'' < 49999 \<and> int64 0 \<and> int64 100 \<and> wf_db ex_db \<and>
   search_records ex_db ''test'' 0 100 = Inr \<lparr>results = [load ex_db ex_row], total = 1\<rparr>"
proof -
  have h: "CHR ''%'' \<notin> set ''test''" "CHR ''_'' \<notin> set ''test''" "CHR 0x00 \<notin> set ''test''"
    "nbytes ''test'' < 49999" "int64 0" "int64 100"
    by (simp_all add: nbytes_def)
  have m: "substring_matches ex_db ''test'' ex_row" by code_simp
  have r: "records ex_db = [ex_row]" by (simp add: ex_db_def)
  from search_records_substring[OF h, of ex_db] obtain listed page where
    l: "get_records ex_db 0 (- 1) = Inr listed"
    and p: "page = offset_limit 0 100
                    (filter (\<lambda>ob. substring_matches ex_db ''test'' (o_columns ob)) listed)"
    and s: "search_records ex_db ''test'' 0 100 =
             Inr \<lparr>results = page,
                  total = length (filter (substring_matches ex_db ''test'') (records ex_db))\<rparr>"
    by blast
  from l have "listed = [load ex_db ex_row]" by (simp add: get_records_all r)
  with p m have "page = [load ex_db ex_row]" by (simp add: offset_limit_def)
  with s m r h wf_ex_db show ?thesis by simp
qed

text \<open>
  The claim as it was stated fails in each respect in which the amended one is
  narrower. On the example database: the query \<open>_\<close>, and the query that is one NUL
  character, are substrings of no field of the record, and the search returns it. A
  query of 49999 letters raises, and so does a limit of \<open>2 ^ 63\<close>. The query
  \<open>cd\<close> is a substring of the title \<^verbatim>\<open>ab\0cd\<close>, and the capital e with an acute
  accent is a substring of the title of \<open>ex_db_accent\<close> when case is ignored; the
  search finds neither record.
\<close>

theorem search_claim_counterexample:
  "search_records ex_db ''_'' 0 100 = Inr \<lparr>results = [load ex_db ex_row], total = 1\<rparr> \<and>
   filter (spec_matches ex_db ''_'') (records ex_db) = [] \<and>
   search_records ex_db [CHR 0x00] 0 100 = Inr \<lparr>results = [load ex_db ex_row], total = 1\<rparr> \<and>
   filter (spec_matches ex_db [CHR 0x00]) (records ex_db) = [] \<and>
   search_records ex_db (replicate 49999 (CHR ''a'')) 0 100 = Inl OperationalError \<and>
   search_records ex_db ''test'' 0 (2 ^ 63) = Inl OverflowError \<and>
   search_records ex_db_nul ''cd'' 0 100 = Inr \<lparr>results = [], total = 0\<rparr> \<and>
   filter (spec_matches ex_db_nul ''cd'') (records ex_db_nul) = records ex_db_nul \<and>
   search_records ex_db_accent [CHR 0xC9] 0 100 = Inr \<lparr>results = [], total = 0\<rparr> \<and>
   filter (spec_matches ex_db_accent [CHR 0xC9]) (records ex_db_accent) = records ex_db_accent"
proof -
  have 1: "search_records ex_db ''_'' 0 100 = Inr \<lparr>results = [load ex_db ex_row], total = 1\<rparr>"
    by code_simp
  have 2: "filter (spec_matches ex_db ''_'') (records ex_db) = []"
    by code_simp
  have 3: "search_records ex_db [CHR 0x00] 0 100 = Inr \<lparr>results = [load ex_db ex_row], total = 1\<rparr>"
    by code_simp
  have 4: "filter (spec_matches ex_db [CHR 0x00]) (records ex_db) = []"
    by code_simp
  have 5: "search_records ex_db (replicate 49999 (CHR ''a'')) 0 100 = Inl OperationalError"
    by (rule search_records_too_long) (simp_all add: nbytes_replicate ex_db_def)
  have 6: "search_records ex_db ''test'' 0 (2 ^ 63) = Inl OverflowError"
    by code_simp
  have 7: "search_records ex_db_nul ''cd'' 0 100 = Inr \<lparr>results = [], total = 0\<rparr>"
    by code_simp
  have 8: "filter (spec_matches ex_db_nul ''cd'') (records ex_db_nul) = records ex_db_nul"
    by code_simp
  have 9: "search_records ex_db_accent [CHR 0xC9] 0 100 = Inr \<lparr>results = [], total = 0\<rparr>"
    by code_simp
  have 10: "filter (spec_matches ex_db_accent [CHR 0xC9]) (records ex_db_accent) = records ex_db_accent"
    by code_simp
  from 1 2 3 4 5 6 7 8 9 10 show ?thesis by blast
qed

text \<open>
  Claim C10, as amended. For an offset and a limit that are 64-bit integers, the empty
  query matches every record: \<open>total\<close> is the number of records in storage and
  \<open>results\<close> is the offset/limit page of all records, the page that \<open>get_records\<close>
  returns.
\<close>

theorem search_empty_query_matches_all:
  assumes "int64 skip" and "int64 limit"
  shows "search_records db [] skip limit =
           Inr \<lparr>results = map (load db) (offset_limit skip limit (records db)),
                total = length (records db)\<rparr> \<and>
         get_records db skip limit = Inr (map (load db) (offset_limit skip limit (records db)))"
proof -
  have "filter_rows (search_filter db ''%%'') (records db) = Inr (filter (\<lambda>r. True) (records db))"
    by (rule filter_rows_Inr) (rule search_filter_empty_query)
  with assms show ?thesis
    by (simp add: search_records_def get_records_def)
qed

theorem search_empty_query_matches_all_witness:
  "int64 1 \<and> search_records ex_db2 [] 1 1 = Inr \<lparr>results = [load ex_db2 ex_row2], total = 2\<rparr> \<and>
   get_records ex_db2 1 1 = Inr [load ex_db2 ex_row2]"
  using search_empty_query_matches_all[of 1 1 ex_db2]
  by (simp add: ex_db2_def offset_limit_def)

text \<open>
  The claim as it was stated fails for an offset that is no 64-bit integer: the
  statement for the page cannot take it as a parameter, and the search raises.
\<close>

theorem search_empty_query_counterexample:
  "search_records ex_db [] (2 ^ 63) 100 = Inl OverflowError"
  by code_simp

subsection \<open>Constraints and lookups\<close>

lemma wf_distinct_track_ids: "wf_db db \<Longrightarrow> distinct (map t_id (tracks db))"
  by (simp add: wf_db_def strict_sorted_iff)

lemma wf_distinct_genre_ids: "wf_db db \<Longrightarrow> distinct (map g_id (genres db))"
  by (simp add: wf_db_def strict_sorted_iff)

lemma wf_distinct_record_ids: "wf_db db \<Longrightarrow> distinct (map r_id (records db))"
  by (simp add: wf_db_def strict_sorted_iff)

lemma wf_edge_genre: "wf_db db \<Longrightarrow> (r, g) \<in> record_genre db \<Longrightarrow> g \<in> g_id ` set (genres db)"
  by (force simp: wf_db_def)

lemma wf_edge_record: "wf_db db \<Longrightarrow> (r, g) \<in> record_genre db \<Longrightarrow> r \<in> r_id ` set (records db)"
  by (force simp: wf_db_def)

lemma wf_track_record: "wf_db db \<Longrightarrow> t \<in> set (tracks db) \<Longrightarrow> t_record_id t \<in> r_id ` set (records db)"
  by (auto simp: wf_db_def list_all_iff)

lemma wf_record_int64:
  "wf_db db \<Longrightarrow> rid \<in> r_id ` set (records db) \<Longrightarrow> int64 rid \<and> int64 (rid + 1)"
  by (auto simp: wf_db_def list_all_iff)

lemma get_record_Some_iff:
  "get_record db rid = Inr (Some ob) \<longleftrightarrow>
     int64 rid \<and> (\<exists>r. find (\<lambda>r. r_id r = rid) (records db) = Some r \<and> ob = load db r)"
  by (auto simp: get_record_def)

lemma get_record_None_iff:
  "get_record db rid = Inr None \<longleftrightarrow> int64 rid \<and> rid \<notin> r_id ` set (records db)"
  by (auto simp: get_record_def find_None_iff)

lemma get_record_Inl_iff: "get_record db rid = Inl e \<longleftrightarrow> \<not> int64 rid \<and> e = OverflowError"
  by (auto simp: get_record_def)

lemma get_record_id: "get_record db rid = Inr (Some ob) \<Longrightarrow> r_id (o_columns ob) = rid"
  by (auto simp: get_record_def find_Some_iff split: if_splits)

lemma get_record_loaded:
  "get_record db rid = Inr (Some ob) \<Longrightarrow>
   o_genres ob = genres_of db rid \<and> o_tracks ob = tracks_of db rid \<and> rid \<in> r_id ` set (records db)"
  by (auto simp: get_record_def find_Some_iff split: if_splits)

lemma get_record_present:
  assumes "wf_db db" and "rid \<in> r_id ` set (records db)"
  shows "\<exists>ob. get_record db rid = Inr (Some ob)"
proof -
  from assms(2) have "find (\<lambda>r. r_id r = rid) (records db) \<noteq> None"
    by (auto simp: find_None_iff)
  with wf_record_int64[OF assms] show ?thesis
    by (auto simp: get_record_def)
qed

subsection \<open>delete\_record\<close>

lemma delete_tracks_by_id:
  assumes "distinct (map t_id tbl)"
  shows "filter (\<lambda>t. t_id t \<notin> set (map t_id (filter (\<lambda>t. t_record_id t = rid) tbl))) tbl
         = filter (\<lambda>t. t_record_id t \<noteq> rid) tbl"
proof (rule filter_cong[OF refl])
  fix t assume t: "t \<in> set tbl"
  have inj: "inj_on t_id (set tbl)"
    using assms by (simp add: distinct_map)
  show "(t_id t \<notin> set (map t_id (filter (\<lambda>t. t_record_id t = rid) tbl))) = (t_record_id t \<noteq> rid)"
  proof
    assume "t_id t \<notin> set (map t_id (filter (\<lambda>t. t_record_id t = rid) tbl))"
    with t show "t_record_id t \<noteq> rid" by auto
  next
    assume ne: "t_record_id t \<noteq> rid"
    show "t_id t \<notin> set (map t_id (filter (\<lambda>t. t_record_id t = rid) tbl))"
    proof
      assume "t_id t \<in> set (map t_id (filter (\<lambda>t. t_record_id t = rid) tbl))"
      then obtain t' where "t' \<in> set tbl" "t_record_id t' = rid" "t_id t' = t_id t" by auto
      with inj t have "t' = t" by (auto dest: inj_onD)
      with \<open>t_record_id t' = rid\<close> ne show False by simp
    qed
  qed
qed

lemma delete_edges_of_loaded:
  assumes "wf_db db"
  shows "record_genre db - Pair rid ` set (map g_id (genres_of db rid))
         = {e \<in> record_genre db. fst e \<noteq> rid}"
proof (rule set_eqI)
  fix e :: "int \<times> int"
  obtain r g where e: "e = (r, g)" by (cases e)
  have "g \<in> set (map g_id (genres_of db rid))" if "(rid, g) \<in> record_genre db"
  proof -
    from wf_edge_genre[OF assms that] obtain x where "x \<in> set (genres db)" "g_id x = g"
      by auto
    with that have "x \<in> set (genres_of db rid)" by (simp add: genres_of_def)
    with \<open>g_id x = g\<close> show ?thesis by force
  qed
  then show "e \<in> record_genre db - Pair rid ` set (map g_id (genres_of db rid))
             \<longleftrightarrow> e \<in> {e \<in> record_genre db. fst e \<noteq> rid}"
    unfolding e by auto
qed

lemma delete_record_existing:
  assumes "wf_db db" and "get_record db rid = Inr (Some ob)"
  shows "delete_record db rid =
           Inr (db\<lparr>records := filter (\<lambda>r. r_id r \<noteq> rid) (records db),
                   tracks := filter (\<lambda>t. t_record_id t \<noteq> rid) (tracks db),
                   record_genre := {e \<in> record_genre db. fst e \<noteq> rid}\<rparr>, True)"
proof -
  note ob = get_record_loaded[OF assms(2)]
  show ?thesis
    using assms(2) ob delete_tracks_by_id[OF wf_distinct_track_ids[OF assms(1)], of rid]
      delete_edges_of_loaded[OF assms(1), of rid]
    by (simp add: delete_record_def tracks_of_def)
qed

lemma delete_record_missing:
  "get_record db rid = Inr None \<Longrightarrow> delete_record db rid = Inr (db, False)"
  by (simp add: delete_record_def)

lemma update_record_missing:
  "get_record db rid = Inr None \<Longrightarrow> update_record db rid upd today utcnow = Inr (db, None)"
  by (simp add: update_record_def)

text \<open>An id that is no 64-bit integer cannot be looked up: all three operations raise.\<close>

lemma record_id_overflow:
  assumes "\<not> int64 rid"
  shows "get_record db rid = Inl OverflowError"
    and "update_record db rid upd today utcnow = Inl OverflowError"
    and "delete_record db rid = Inl OverflowError"
  using assms by (simp_all add: get_record_def update_record_def delete_record_def)

lemma find_filter_other:
  "other \<noteq> rid \<Longrightarrow>
   find (\<lambda>r. r_id r = other) (filter (\<lambda>r. r_id r \<noteq> rid) xs) = find (\<lambda>r. r_id r = other) xs"
  by (induction xs) auto

lemma find_filter_same:
  "find (\<lambda>r. r_id r = rid) (filter (\<lambda>r. r_id r \<noteq> rid) xs) = None"
  by (induction xs) auto

lemma ex_db2_created: "create_record ex_db ex_create2 739001 = Inr (ex_db2, load ex_db2 ex_row2)"
  by code_simp

lemma wf_ex_db2: "wf_db ex_db2"
  by code_simp

lemma get_ex_db2:
  "get_record ex_db2 2 = Inr (Some (load ex_db2 ex_row2))"
  "get_record ex_db2 1 = Inr (Some (load ex_db2 ex_row))"
  "get_record ex_db2 999 = Inr None"
  by code_simp+

text \<open>
  Claim C6. Deleting an existing record removes its row, every track that belongs to it
  and every association row of it, and nothing else: the genres table is unchanged, and
  every other record keeps the genres it had. A following \<open>get_record\<close> finds
  nothing.
\<close>

theorem delete_record_cascade:
  assumes "wf_db db" and "get_record db rid = Inr (Some ob)"
  shows "case delete_record db rid of
           Inl e \<Rightarrow> False
         | Inr (db', deleted) \<Rightarrow>
             deleted = True \<and>
             records db' = filter (\<lambda>r. r_id r \<noteq> rid) (records db) \<and>
             tracks db' = filter (\<lambda>t. t_record_id t \<noteq> rid) (tracks db) \<and>
             record_genre db' = {e \<in> record_genre db. fst e \<noteq> rid} \<and>
             genres db' = genres db \<and>
             get_record db' rid = Inr None \<and>
             (\<forall>other. other \<noteq> rid \<longrightarrow> genres_of db' other = genres_of db other)"
proof -
  have "genres_of (db\<lparr>records := rs, tracks := ts,
                      record_genre := {e \<in> record_genre db. fst e \<noteq> rid}\<rparr>) other
        = genres_of db other" if "other \<noteq> rid" for other rs ts
    using that by (simp add: genres_of_def)
  moreover have "int64 rid"
    using assms(2) by (simp add: get_record_Some_iff)
  ultimately show ?thesis
    by (simp add: delete_record_existing[OF assms] get_record_def find_filter_same)
qed

theorem delete_record_cascade_witness:
  "wf_db ex_db2 \<and> get_record ex_db2 2 = Inr (Some (load ex_db2 ex_row2)) \<and>
   snd (projr (delete_record ex_db2 2)) = True \<and>
   tracks (fst (projr (delete_record ex_db2 2))) = tracks ex_db \<and>
   record_genre (fst (projr (delete_record ex_db2 2))) = {(1, 1), (1, 2)} \<and>
   genres (fst (projr (delete_record ex_db2 2))) = genres ex_db2 \<and>
   get_record (fst (projr (delete_record ex_db2 2))) 2 = Inr None \<and>
   genres_of (fst (projr (delete_record ex_db2 2))) 1 = genres_of ex_db2 1"
proof -
  have t: "tracks (fst (projr (delete_record ex_db2 2))) = tracks ex_db"
    and e: "record_genre (fst (projr (delete_record ex_db2 2))) = {(1, 1), (1, 2)}"
    by code_simp+
  show ?thesis
    using delete_record_cascade[OF wf_ex_db2 get_ex_db2(1)] wf_ex_db2 get_ex_db2(1) t e
    by (auto simp: case_prod_unfold split: sum.splits)
qed

lemma load_after_delete:
  assumes "r_id r \<noteq> rid"
  shows "load (db\<lparr>records := rs,
                  tracks := filter (\<lambda>t. t_record_id t \<noteq> rid) (tracks db),
                  record_genre := {e \<in> record_genre db. fst e \<noteq> rid}\<rparr>) r
         = load db r"
proof -
  have "filter (\<lambda>t. t_record_id t = r_id r) (filter (\<lambda>t. t_record_id t \<noteq> rid) (tracks db))
        = filter (\<lambda>t. t_record_id t = r_id r) (tracks db)"
    using assms by (auto intro: filter_cong)
  then show ?thesis
    using assms by (simp add: load_def genres_of_def tracks_of_def)
qed

lemma get_record_after_delete:
  assumes "wf_db db" and "get_record db rid = Inr (Some ob)" and "other \<noteq> rid"
  shows "get_record (fst (projr (delete_record db rid))) other = get_record db other"
proof (cases "find (\<lambda>r. r_id r = other) (records db)")
  case None
  then show ?thesis
    using assms(3) by (simp add: delete_record_existing[OF assms(1,2)] get_record_def find_filter_other)
next
  case (Some r)
  then have "r_id r = other" by (auto simp: find_Some_iff)
  with assms(3) have "r_id r \<noteq> rid" by simp
  from load_after_delete[OF this] Some assms(3) show ?thesis
    by (simp add: delete_record_existing[OF assms(1,2)] get_record_def find_filter_other)
qed

text \<open>
  Claim C8, as amended. For an id that is a 64-bit integer and is not in storage,
  \<open>update_record\<close> returns \<^verbatim>\<open>None\<close> and \<open>delete_record\<close> returns
  \<^verbatim>\<open>False\<close>; neither raises nor changes the database. So the first delete of an
  existing id returns \<^verbatim>\<open>True\<close>, the second returns \<^verbatim>\<open>False\<close> and changes nothing,
  and after the first every other id reads as before.
\<close>

theorem missing_id_is_noop:
  "(int64 rid \<and> rid \<notin> set (map r_id (records db)) \<longrightarrow>
      update_record db rid record_update today utcnow = Inr (db, None) \<and>
      delete_record db rid = Inr (db, False))
   \<and> (wf_db db \<and> rid \<in> set (map r_id (records db)) \<longrightarrow>
        (case delete_record db rid of
           Inl e \<Rightarrow> False
         | Inr (db', first) \<Rightarrow>
             first = True \<and>
             delete_record db' rid = Inr (db', False) \<and>
             (\<forall>other. other \<noteq> rid \<longrightarrow> get_record db' other = get_record db other)))"
proof (intro conjI impI)
  assume "int64 rid \<and> rid \<notin> set (map r_id (records db))"
  then have "get_record db rid = Inr None"
    by (simp add: get_record_None_iff)
  then show "update_record db rid record_update today utcnow = Inr (db, None)"
    and "delete_record db rid = Inr (db, False)"
    by (simp_all add: update_record_missing delete_record_missing)
next
  assume a: "wf_db db \<and> rid \<in> set (map r_id (records db))"
  then have wf: "wf_db db" by simp
  from a get_record_present[OF wf, of rid] obtain ob where ob: "get_record db rid = Inr (Some ob)"
    by auto
  define db' where "db' = db\<lparr>records := filter (\<lambda>r. r_id r \<noteq> rid) (records db),
               tracks := filter (\<lambda>t. t_record_id t \<noteq> rid) (tracks db),
               record_genre := {e \<in> record_genre db. fst e \<noteq> rid}\<rparr>"
  have d: "delete_record db rid = Inr (db', True)"
    by (simp add: delete_record_existing[OF wf ob] db'_def)
  have "int64 rid" using ob by (simp add: get_record_Some_iff)
  then have gone: "get_record db' rid = Inr None"
    by (simp add: db'_def get_record_def find_filter_same)
  then have "delete_record db' rid = Inr (db', False)"
    by (rule delete_record_missing)
  moreover have "get_record db' other = get_record db other" if "other \<noteq> rid" for other
    using get_record_after_delete[OF wf ob that] d by simp
  ultimately show "case delete_record db rid of
           Inl e \<Rightarrow> False
         | Inr (db', first) \<Rightarrow>
             first = True \<and>
             delete_record db' rid = Inr (db', False) \<and>
             (\<forall>other. other \<noteq> rid \<longrightarrow> get_record db' other = get_record db other)"
    using d by simp
qed

theorem missing_id_is_noop_witness:
  "int64 999 \<and> 999 \<notin> set (map r_id (records ex_db2)) \<and>
   update_record ex_db2 999 ex_update 739002 739002 = Inr (ex_db2, None) \<and>
   delete_record ex_db2 999 = Inr (ex_db2, False) \<and>
   wf_db ex_db2 \<and> 2 \<in> set (map r_id (records ex_db2)) \<and>
   snd (projr (delete_record ex_db2 2)) = True \<and>
   snd (projr (delete_record (fst (projr (delete_record ex_db2 2))) 2)) = False \<and>
   get_record (fst (projr (delete_record ex_db2 2))) 1 = get_record ex_db2 1"
proof -
  have m: "999 \<notin> set (map r_id (records ex_db2))" "2 \<in> set (map r_id (records ex_db2))"
    by (simp_all add: ex_db2_def ex_row_def ex_row2_def)
  show ?thesis
    using missing_id_is_noop[of 999 ex_db2 ex_update 739002 739002]
      missing_id_is_noop[of 2 ex_db2 ex_update 739002 739002] m wf_ex_db2
    by (auto simp: case_prod_unfold split: sum.splits)
qed

text \<open>
  The claim as it was stated fails for an id that is no 64-bit integer. Such an id is not
  in storage, and it cannot be a parameter of the lookup: both operations raise.
\<close>

theorem missing_id_overflow_counterexample:
  "2 ^ 63 \<notin> set (map r_id (records ex_db2)) \<and>
   update_record ex_db2 (2 ^ 63) ex_update 739002 739002 = Inl OverflowError \<and>
   delete_record ex_db2 (2 ^ 63) = Inl OverflowError"
  by code_simp

subsection \<open>create\_record\<close>

lemma next_id_greater: "i \<in> set ids \<Longrightarrow> i < next_id ids"
proof (cases ids)
  case Nil
  then show "i \<in> set ids \<Longrightarrow> i < next_id ids" by simp
next
  case (Cons x xs)
  assume "i \<in> set ids"
  then have "i \<le> Max (set (x # xs))" using Cons by (intro Max_ge) auto
  also have "\<dots> = fold max xs x" by (rule Max.set_eq_fold)
  finally show "i < next_id ids" using Cons by (simp add: next_id_def)
qed

lemma next_id_fresh: "next_id ids \<notin> set ids"
  using next_id_greater by blast

lemma next_id_in_range:
  assumes "\<forall>i \<in> set ids. int64 i \<and> int64 (i + 1)"
  shows "int64 (next_id ids)"
proof (cases ids)
  case Nil
  then show ?thesis by (simp add: next_id_def int64_def)
next
  case (Cons x xs)
  have "fold max xs x = Max (set (x # xs))" by (rule Max.set_eq_fold[symmetric])
  also have "\<dots> \<in> set (x # xs)" by (intro Max_in) simp_all
  finally have "fold max xs x \<in> set ids" using Cons by simp
  with assms have "int64 (fold max xs x + 1)" by blast
  with Cons show ?thesis by (simp add: next_id_def)
qed

lemma sorted_ids_snoc:
  "sorted_wrt (<) ids \<Longrightarrow> sorted_wrt (<) (ids @ [next_id ids])"
  by (auto simp: sorted_wrt_append next_id_greater)

lemma find_snoc_fresh:
  "\<forall>y \<in> set xs. \<not> P y \<Longrightarrow> P x \<Longrightarrow> find P (xs @ [x]) = Some x"
  by (induction xs) auto

lemma get_genre_by_name_Some:
  "get_genre_by_name db name = Some g \<Longrightarrow> g \<in> set (genres db) \<and> g_name g = name"
  by (auto simp: get_genre_by_name_def find_Some_iff)

lemma get_genre_by_name_None:
  "get_genre_by_name db name = None \<longleftrightarrow> name \<notin> set (map g_name (genres db))"
  by (auto simp: get_genre_by_name_def find_None_iff)

lemma create_genres_frame:
  "create_genres names db acc = (db1, gs) \<Longrightarrow>
   records db1 = records db \<and> tracks db1 = tracks db \<and> record_genre db1 = record_genre db"
proof (induction names arbitrary: db acc)
  case Nil
  then show ?case by simp
next
  case (Cons n names)
  show ?case
  proof (cases "get_genre_by_name db n")
    case None
    with Cons.prems have "create_genres names (db\<lparr>genres := genres db @ [\<lparr>g_id = next_id (map g_id (genres db)), g_name = n\<rparr>]\<rparr>)
        (acc @ [\<lparr>g_id = next_id (map g_id (genres db)), g_name = n\<rparr>]) = (db1, gs)"
      by (simp add: add_genre_def Let_def)
    from Cons.IH[OF this] show ?thesis by simp
  next
    case (Some g)
    with Cons.prems have "create_genres names db (acc @ [g]) = (db1, gs)" by simp
    from Cons.IH[OF this] show ?thesis .
  qed
qed

text \<open>The genres table only grows, by genres that the request names, and keeps its key
  constraints; the list holds one genre of the table for each name, in the order of the
  names.\<close>

lemma create_genres_resolved:
  assumes "create_genres names db acc = (db1, gs)"
    and "sorted_wrt (<) (map g_id (genres db))" and "distinct (map g_name (genres db))"
  shows "\<exists>new res. genres db1 = genres db @ new \<and> gs = acc @ res \<and>
           map g_name res = names \<and> set res \<subseteq> set (genres db1) \<and>
           set (map g_name new) \<subseteq> set names \<and>
           sorted_wrt (<) (map g_id (genres db1)) \<and> distinct (map g_name (genres db1))"
  using assms
proof (induction names arbitrary: db acc)
  case Nil
  then show ?case by simp
next
  case (Cons n names)
  show ?case
  proof (cases "get_genre_by_name db n")
    case None
    let ?g = "\<lparr>g_id = next_id (map g_id (genres db)), g_name = n\<rparr>"
    let ?db = "db\<lparr>genres := genres db @ [?g]\<rparr>"
    from None Cons.prems(1) have rec: "create_genres names ?db (acc @ [?g]) = (db1, gs)"
      by (simp add: add_genre_def Let_def)
    have s: "sorted_wrt (<) (map g_id (genres ?db))"
      using sorted_ids_snoc[OF Cons.prems(2)] by simp
    have d: "distinct (map g_name (genres ?db))"
      using None Cons.prems(3) by (simp add: get_genre_by_name_None)
    from Cons.IH[OF rec s d] obtain new res where
      h: "genres db1 = genres ?db @ new" "gs = (acc @ [?g]) @ res" "map g_name res = names"
         "set res \<subseteq> set (genres db1)" "set (map g_name new) \<subseteq> set names"
         "sorted_wrt (<) (map g_id (genres db1))"
         "distinct (map g_name (genres db1))"
      by blast
    then have "genres db1 = genres db @ (?g # new) \<and> gs = acc @ (?g # res) \<and>
           map g_name (?g # res) = n # names \<and> set (?g # res) \<subseteq> set (genres db1) \<and>
           set (map g_name (?g # new)) \<subseteq> set (n # names) \<and>
           sorted_wrt (<) (map g_id (genres db1)) \<and> distinct (map g_name (genres db1))"
      by auto
    then show ?thesis by (intro exI[of _ "?g # new"] exI[of _ "?g # res"])
  next
    case (Some g)
    with Cons.prems(1) have rec: "create_genres names db (acc @ [g]) = (db1, gs)" by simp
    from Cons.IH[OF rec Cons.prems(2,3)] obtain new res where
      h: "genres db1 = genres db @ new" "gs = (acc @ [g]) @ res" "map g_name res = names"
         "set res \<subseteq> set (genres db1)" "set (map g_name new) \<subseteq> set names"
         "sorted_wrt (<) (map g_id (genres db1))"
         "distinct (map g_name (genres db1))"
      by blast
    from get_genre_by_name_Some[OF Some] h(1) have "g \<in> set (genres db1)" "g_name g = n" by auto
    with h have "genres db1 = genres db @ new \<and> gs = acc @ (g # res) \<and>
           map g_name (g # res) = n # names \<and> set (g # res) \<subseteq> set (genres db1) \<and>
           set (map g_name new) \<subseteq> set (n # names) \<and>
           sorted_wrt (<) (map g_id (genres db1)) \<and> distinct (map g_name (genres db1))"
      by auto
    then show ?thesis by (intro exI[of _ new] exI[of _ "g # res"])
  qed
qed

text \<open>Appending to the list of a new record notes each member once, however often it
  is appended, and the flush for a record without association rows inserts one row for
  each.\<close>

lemma fold_pending_append:
  "deleted_items p = {} \<Longrightarrow>
   fold pending_append gs p = p\<lparr>added_items := added_items p \<union> set gs\<rparr>"
proof (induction gs arbitrary: p)
  case Nil
  then show ?case by simp
next
  case (Cons g gs)
  have "deleted_items (pending_append g p) = {}"
    using Cons.prems by (simp add: pending_append_def)
  from Cons.IH[OF this] Cons.prems show ?case
    by (simp add: pending_append_def)
qed

lemma pending_of_new: "fold pending_append gs no_pending = \<lparr>added_items = set gs, deleted_items = {}\<rparr>"
  using fold_pending_append[of no_pending gs] by (simp add: no_pending_def)

lemma flush_genres_fresh:
  assumes "\<And>g. (rid, g) \<notin> es"
  shows "flush_genres rid \<lparr>added_items = A, deleted_items = {}\<rparr> es = Inr (es \<union> Pair rid ` A)"
proof -
  have "Pair rid ` A \<inter> es = {}" using assms by auto
  then show ?thesis by (simp add: flush_genres_def)
qed

lemma add_tracks_Model: "add_tracks (map Model ts) = Inr ts"
  by (induction ts) (simp_all add: new_Track_def)

lemma add_tracks_Dict: "add_tracks (map Dict ts) = (if ts = [] then Inr [] else Inl AttributeError)"
  by (cases ts) (simp_all add: new_Track_def)

lemma insert_tracks_result:
  "\<exists>new. insert_tracks rid ts tbl = tbl @ new \<and> map track_fields new = ts \<and>
         (\<forall>t \<in> set new. t_record_id t = rid) \<and>
         (sorted_wrt (<) (map t_id tbl) \<longrightarrow> sorted_wrt (<) (map t_id (tbl @ new)))"
proof (induction ts arbitrary: tbl)
  case Nil
  then show ?case by simp
next
  case (Cons t ts)
  let ?t = "\<lparr>t_id = next_id (map t_id tbl), t_record_id = rid, t_title = tc_title t,
             t_position = tc_position t, t_duration = tc_duration t\<rparr>"
  from Cons.IH[of "tbl @ [?t]"] obtain new where
    h: "insert_tracks rid ts (tbl @ [?t]) = (tbl @ [?t]) @ new" "map track_fields new = ts"
       "\<forall>t \<in> set new. t_record_id t = rid"
       "sorted_wrt (<) (map t_id (tbl @ [?t])) \<longrightarrow> sorted_wrt (<) (map t_id ((tbl @ [?t]) @ new))"
    by blast
  have "sorted_wrt (<) (map t_id tbl) \<Longrightarrow> sorted_wrt (<) (map t_id (tbl @ [?t]))"
    using sorted_ids_snoc[of "map t_id tbl"] by simp
  with h have "insert_tracks rid (t # ts) tbl = tbl @ (?t # new) \<and> map track_fields (?t # new) = t # ts \<and>
         (\<forall>x \<in> set (?t # new). t_record_id x = rid) \<and>
         (sorted_wrt (<) (map t_id tbl) \<longrightarrow> sorted_wrt (<) (map t_id (tbl @ (?t # new))))"
    by (simp add: track_fields_def)
  then show ?case by (intro exI[of _ "?t # new"])
qed

lemma create_genres_names:
  "(case c_genres record of None \<Rightarrow> (db, []) | Some names \<Rightarrow> create_genres names db [])
   = create_genres (genre_names record) db []"
  by (simp add: genre_names_def split: option.split)

lemma add_tracks_create:
  "add_tracks (case c_tracks record of None \<Rightarrow> [] | Some ts \<Rightarrow> map Model ts) = Inr (track_list record)"
  using add_tracks_Model by (simp add: track_list_def split: option.split)

lemma inj_on_sorted_ids: "sorted_wrt (<) (map (f :: 'a \<Rightarrow> int) xs) \<Longrightarrow> inj_on f (set xs)"
  by (simp add: strict_sorted_iff distinct_map)

lemma next_id_fresh_map: "x \<in> set xs \<Longrightarrow> f x \<noteq> next_id (map f xs)"
  using next_id_fresh[of "map f xs"] by (metis image_eqI list.set_map)

lemma wf_fresh_edge: "wf_db db \<Longrightarrow> (next_id (map r_id (records db)), g) \<notin> record_genre db"
  using wf_edge_record[of db "next_id (map r_id (records db))" g] next_id_fresh[of "map r_id (records db)"]
  by auto

lemma wf_fresh_track:
  "wf_db db \<Longrightarrow> t \<in> set (tracks db) \<Longrightarrow> t_record_id t \<noteq> next_id (map r_id (records db))"
  using wf_track_record[of db t] next_id_fresh[of "map r_id (records db)"]
  by auto

lemma wf_next_id_int64: "wf_db db \<Longrightarrow> int64 (next_id (map r_id (records db)))"
  by (rule next_id_in_range) (auto simp: wf_db_def list_all_iff)

text \<open>What \<open>create_record\<close> does on tables that satisfy their constraints: it
  returns, with one new row in \<open>records\<close>, the missing genres, the tracks of the
  request and one association row for each genre that the request names.\<close>

lemma create_record_char:
  assumes wf: "wf_db db"
  obtains new gs newt where
    "map g_name gs = genre_names record"
    "set gs \<subseteq> set (genres db @ new)"
    "set (map g_name new) \<subseteq> set (genre_names record)"
    "sorted_wrt (<) (map g_id (genres db @ new))"
    "distinct (map g_name (genres db @ new))"
    "map track_fields newt = track_list record"
    "\<forall>t \<in> set newt. t_record_id t = next_id (map r_id (records db))"
    "sorted_wrt (<) (map t_id (tracks db @ newt))"
    "create_record db record utcnow =
       (let row = new_Record (next_id (map r_id (records db))) record utcnow;
            db2 = \<lparr>records = records db @ [row], genres = genres db @ new,
                   tracks = tracks db @ newt,
                   record_genre = record_genre db \<union> Pair (r_id row) ` set (map g_id gs)\<rparr>
        in Inr (db2, load db2 row))"
proof -
  let ?rid = "next_id (map r_id (records db))"
  obtain db1 gs where cg: "create_genres (genre_names record) db [] = (db1, gs)"
    by (cases "create_genres (genre_names record) db []")
  from wf have s: "sorted_wrt (<) (map g_id (genres db))" and d: "distinct (map g_name (genres db))"
    by (simp_all add: wf_db_def)
  from create_genres_resolved[OF cg s d] obtain new where
    r: "genres db1 = genres db @ new" "map g_name gs = genre_names record"
       "set gs \<subseteq> set (genres db1)" "set (map g_name new) \<subseteq> set (genre_names record)"
       "sorted_wrt (<) (map g_id (genres db1))"
       "distinct (map g_name (genres db1))"
    by auto
  note f = create_genres_frame[OF cg]
  from insert_tracks_result[of ?rid "track_list record" "tracks db"] wf obtain newt where
    t: "insert_tracks ?rid (track_list record) (tracks db) = tracks db @ newt"
       "map track_fields newt = track_list record" "\<forall>t \<in> set newt. t_record_id t = ?rid"
       "sorted_wrt (<) (map t_id (tracks db @ newt))"
    by (auto simp: wf_db_def)
  have fresh: "(?rid, g) \<notin> record_genre db" for g
    by (rule wf_fresh_edge[OF wf])
  have db1: "db1 = \<lparr>records = records db, genres = genres db @ new, tracks = tracks db,
                    record_genre = record_genre db\<rparr>"
    using f r(1) by simp
  have fl: "flush_genres ?rid (fold pending_append (map g_id gs) no_pending) (record_genre db)
            = Inr (record_genre db \<union> Pair ?rid ` set (map g_id gs))"
    unfolding pending_of_new using fresh by (rule flush_genres_fresh)
  have "create_record db record utcnow =
       (let row = new_Record ?rid record utcnow;
            db2 = \<lparr>records = records db @ [row], genres = genres db @ new,
                   tracks = tracks db @ newt,
                   record_genre = record_genre db \<union> Pair (r_id row) ` set (map g_id gs)\<rparr>
        in Inr (db2, load db2 row))"
    unfolding create_record_def create_genres_names cg add_tracks_create
    by (simp add: db1 Let_def fl t(1) new_Record_def)
  with r t show ?thesis
    using that[of gs new newt] by simp
qed

lemma genres_of_new:
  assumes "set gs \<subseteq> set tbl" and "sorted_wrt (<) (map g_id tbl)"
    and "\<And>g. (rid, g) \<notin> es"
  shows "set (filter (\<lambda>g. (rid, g_id g) \<in> es \<union> Pair rid ` set (map g_id gs)) tbl) = set gs"
proof -
  have inj: "inj_on g_id (set tbl)" using assms(2) by (rule inj_on_sorted_ids)
  have "g \<in> set gs" if "g \<in> set tbl" "g_id g \<in> g_id ` set gs" for g
  proof -
    from that(2) obtain g' where "g' \<in> set gs" "g_id g' = g_id g" by auto
    with inj that(1) assms(1) have "g' = g" by (auto dest: inj_onD)
    with \<open>g' \<in> set gs\<close> show ?thesis by simp
  qed
  with assms(1,3) show ?thesis by auto
qed

lemma distinct_ids_filter:
  "sorted_wrt (<) (map (f :: 'a \<Rightarrow> int) xs) \<Longrightarrow> distinct (map f (filter P xs))"
  by (simp add: strict_sorted_iff distinct_map_filter)

lemma tracks_of_new:
  assumes "\<forall>t \<in> set old. t_record_id t \<noteq> rid" and "\<forall>t \<in> set newt. t_record_id t = rid"
  shows "filter (\<lambda>t. t_record_id t = rid) (old @ newt) = newt"
  using assms by (simp add: filter_empty_conv filter_id_conv)

text \<open>The record that \<open>create_record\<close> returns, and the tables it leaves.\<close>

lemma create_record_loaded:
  assumes "wf_db db"
  shows "\<exists>db' created new.
         create_record db record utcnow = Inr (db', created) \<and>
         get_record db' (next_id (map r_id (records db))) = Inr (Some created) \<and>
         o_columns created = new_Record (next_id (map r_id (records db))) record utcnow \<and>
         set (map g_name (o_genres created)) = set (genre_names record) \<and>
         distinct (map g_id (o_genres created)) \<and>
         distinct (map g_name (o_genres created)) \<and>
         map track_fields (o_tracks created) = track_list record \<and>
         (\<forall>t \<in> set (o_tracks created). t_record_id t = next_id (map r_id (records db))) \<and>
         genres db' = genres db @ new \<and>
         distinct (map g_name (genres db')) \<and>
         set (map g_name new) = set (genre_names record) - set (map g_name (genres db)) \<and>
         {g. (next_id (map r_id (records db)), g) \<in> record_genre db'} = g_id ` set (o_genres created)"
proof -
  let ?rid = "next_id (map r_id (records db))"
  let ?row = "new_Record ?rid record utcnow"
  from create_record_char[OF assms(1), of "record" utcnow] obtain new gs newt where
    h: "map g_name gs = genre_names record"
       "set gs \<subseteq> set (genres db @ new)"
       "sorted_wrt (<) (map g_id (genres db @ new))"
       "map track_fields newt = track_list record"
       "\<forall>t \<in> set newt. t_record_id t = ?rid"
       "set (map g_name new) \<subseteq> set (genre_names record)"
       "distinct (map g_name (genres db @ new))"
    and c: "create_record db record utcnow =
       (let row = ?row;
            db2 = \<lparr>records = records db @ [row], genres = genres db @ new,
                   tracks = tracks db @ newt,
                   record_genre = record_genre db \<union> Pair (r_id row) ` set (map g_id gs)\<rparr>
        in Inr (db2, load db2 row))"
    by metis
  define db2 where "db2 = \<lparr>records = records db @ [?row], genres = genres db @ new,
                tracks = tracks db @ newt,
                record_genre = record_genre db \<union> Pair ?rid ` set (map g_id gs)\<rparr>"
  define created where "created = load db2 ?row"
  have rid: "r_id ?row = ?rid" by (simp add: new_Record_def)
  from c have cr: "create_record db record utcnow = Inr (db2, created)"
    by (simp add: Let_def rid db2_def created_def)
  have fresh_r: "\<forall>y \<in> set (records db). r_id y \<noteq> ?rid"
    by (simp add: next_id_fresh_map)
  have fresh_e: "(?rid, g) \<notin> record_genre db" for g
    using wf_fresh_edge[OF assms(1)] by simp
  have fresh_t: "\<forall>t \<in> set (tracks db). t_record_id t \<noteq> ?rid"
    by (simp add: wf_fresh_track[OF assms(1)])
  have g: "get_record db2 ?rid = Inr (Some created)"
  proof -
    have "find (\<lambda>r. r_id r = ?rid) (records db @ [?row]) = Some ?row"
      using fresh_r rid by (intro find_snoc_fresh) auto
    then show ?thesis
      using wf_next_id_int64[OF assms(1)] by (simp add: get_record_def db2_def created_def)
  qed
  have tr: "tracks_of db2 ?rid = newt"
    using tracks_of_new[OF fresh_t h(5)] by (simp add: tracks_of_def db2_def)
  have ge: "set (genres_of db2 ?rid) = set gs"
    using genres_of_new[OF h(2,3) fresh_e] by (simp add: genres_of_def db2_def)
  have gd: "distinct (map g_id (genres_of db2 ?rid))"
    using distinct_ids_filter[OF h(3)] by (simp add: genres_of_def db2_def)
  have gn: "distinct (map g_name (genres_of db2 ?rid))"
  proof -
    have "genres db2 = genres db @ new" by (simp add: db2_def)
    then show ?thesis
      unfolding genres_of_def by (simp only: distinct_map_filter[OF h(7)])
  qed
  have names: "set (map g_name (genres_of db2 ?rid)) = set (genre_names record)"
    using ge h(1) by (metis set_map)
  have cols: "o_columns created = ?row" "o_genres created = genres_of db2 ?rid"
    "o_tracks created = tracks_of db2 ?rid"
    by (simp_all add: created_def rid)
  have newn: "set (map g_name new) = set (genre_names record) - set (map g_name (genres db))"
  proof
    show "set (map g_name new) \<subseteq> set (genre_names record) - set (map g_name (genres db))"
      using h(6,7) by auto
    show "set (genre_names record) - set (map g_name (genres db)) \<subseteq> set (map g_name new)"
    proof
      fix n assume n: "n \<in> set (genre_names record) - set (map g_name (genres db))"
      with h(1) obtain x where "x \<in> set gs" "g_name x = n" by (metis DiffD1 imageE set_map)
      with h(2) n show "n \<in> set (map g_name new)" by auto
    qed
  qed
  have links: "{g. (?rid, g) \<in> record_genre db2} = g_id ` set (genres_of db2 ?rid)"
    unfolding ge using fresh_e by (auto simp: db2_def)
  have "get_record db2 ?rid = Inr (Some created) \<and>
         o_columns created = ?row \<and>
         set (map g_name (o_genres created)) = set (genre_names record) \<and>
         distinct (map g_id (o_genres created)) \<and>
         distinct (map g_name (o_genres created)) \<and>
         map track_fields (o_tracks created) = track_list record \<and>
         (\<forall>t \<in> set (o_tracks created). t_record_id t = ?rid) \<and>
         genres db2 = genres db @ new \<and>
         distinct (map g_name (genres db2)) \<and>
         set (map g_name new) = set (genre_names record) - set (map g_name (genres db)) \<and>
         {g. (?rid, g) \<in> record_genre db2} = g_id ` set (o_genres created)"
    using g names gd gn tr h(4,5,7) newn links by (simp add: cols) (simp add: db2_def)
  with cr show ?thesis by blast
qed

text \<open>
  Claim C1. On tables that satisfy their constraints \<open>create_record\<close> returns a
  record for every request, and \<open>get_record\<close> on the returned id in the resulting
  database returns that same record: the columns are the fields of the request (with both
  timestamps the date of the operation), the genres are exactly the genres named by the
  request, each once, and the tracks are the tracks of the request in the order of the
  request, all bound to the new id.
\<close>

theorem create_then_get:
  assumes "wf_db db"
  shows "\<exists>db' created.
         create_record db record utcnow = Inr (db', created) \<and>
         get_record db' (r_id (o_columns created)) = Inr (Some created) \<and>
         r_title (o_columns created) = c_title record \<and>
         r_artist (o_columns created) = c_artist record \<and>
         r_release_date (o_columns created) = c_release_date record \<and>
         r_label (o_columns created) = c_label record \<and>
         r_catalog_number (o_columns created) = c_catalog_number record \<and>
         r_format (o_columns created) = c_format record \<and>
         r_condition (o_columns created) = c_condition record \<and>
         r_purchase_date (o_columns created) = c_purchase_date record \<and>
         r_purchase_price (o_columns created) = c_purchase_price record \<and>
         r_album_art_url (o_columns created) = c_album_art_url record \<and>
         r_notes (o_columns created) = c_notes record \<and>
         r_discogs_url (o_columns created) = c_discogs_url record \<and>
         r_review_url (o_columns created) = c_review_url record \<and>
         r_created_at (o_columns created) = utcnow \<and>
         r_updated_at (o_columns created) = utcnow \<and>
         set (map g_name (o_genres created)) = set (genre_names record) \<and>
         distinct (map g_id (o_genres created)) \<and>
         map track_fields (o_tracks created) = track_list record \<and>
         (\<forall>t \<in> set (o_tracks created). t_record_id t = r_id (o_columns created))"
proof -
  from create_record_loaded[OF assms, of "record" utcnow] obtain db' created where
    l: "create_record db record utcnow = Inr (db', created)"
       "get_record db' (next_id (map r_id (records db))) = Inr (Some created)"
       "o_columns created = new_Record (next_id (map r_id (records db))) record utcnow"
       "set (map g_name (o_genres created)) = set (genre_names record)"
       "distinct (map g_id (o_genres created))"
       "map track_fields (o_tracks created) = track_list record"
       "\<forall>t \<in> set (o_tracks created). t_record_id t = next_id (map r_id (records db))"
    by blast
  from l(3) have id: "r_id (o_columns created) = next_id (map r_id (records db))"
    by (simp add: new_Record_def)
  have "create_record db record utcnow = Inr (db', created) \<and>
         get_record db' (r_id (o_columns created)) = Inr (Some created) \<and>
         r_title (o_columns created) = c_title record \<and>
         r_artist (o_columns created) = c_artist record \<and>
         r_release_date (o_columns created) = c_release_date record \<and>
         r_label (o_columns created) = c_label record \<and>
         r_catalog_number (o_columns created) = c_catalog_number record \<and>
         r_format (o_columns created) = c_format record \<and>
         r_condition (o_columns created) = c_condition record \<and>
         r_purchase_date (o_columns created) = c_purchase_date record \<and>
         r_purchase_price (o_columns created) = c_purchase_price record \<and>
         r_album_art_url (o_columns created) = c_album_art_url record \<and>
         r_notes (o_columns created) = c_notes record \<and>
         r_discogs_url (o_columns created) = c_discogs_url record \<and>
         r_review_url (o_columns created) = c_review_url record \<and>
         r_created_at (o_columns created) = utcnow \<and>
         r_updated_at (o_columns created) = utcnow \<and>
         set (map g_name (o_genres created)) = set (genre_names record) \<and>
         distinct (map g_id (o_genres created)) \<and>
         map track_fields (o_tracks created) = track_list record \<and>
         (\<forall>t \<in> set (o_tracks created). t_record_id t = r_id (o_columns created))"
    unfolding id using l by (simp add: new_Record_def)
  then show ?thesis by blast
qed

theorem create_then_get_witness:
  "wf_db ex_db \<and>
   create_record ex_db ex_create2 739001 = Inr (ex_db2, load ex_db2 ex_row2) \<and>
   get_record ex_db2 2 = Inr (Some (load ex_db2 ex_row2)) \<and>
   set (map g_name (o_genres (load ex_db2 ex_row2))) = {''Rock'', ''Jazz''} \<and>
   map track_fields (o_tracks (load ex_db2 ex_row2)) = track_list ex_create2"
proof -
  have n: "genre_names ex_create2 = [''Rock'', ''Jazz'']" "r_id ex_row2 = 2"
    by (simp_all add: genre_names_def ex_create2_def ex_row2_def)
  from create_then_get[OF wf_ex_db, of ex_create2 739001] obtain db' created where
    c: "create_record ex_db ex_create2 739001 = Inr (db', created)"
    and g: "get_record db' (r_id (o_columns created)) = Inr (Some created)"
    and s: "set (map g_name (o_genres created)) = set (genre_names ex_create2)"
    and t: "map track_fields (o_tracks created) = track_list ex_create2"
    by blast
  from c ex_db2_created have "db' = ex_db2" "created = load ex_db2 ex_row2" by simp_all
  with g s t n wf_ex_db ex_db2_created show ?thesis by simp
qed

lemma ex_db_duplicate_created:
  "create_record empty_db ex_create_duplicate 739000
   = Inr (ex_db_duplicate, load ex_db_duplicate ex_row)"
  by code_simp

lemma wf_empty_db: "wf_db empty_db"
  by (simp add: wf_db_def empty_db_def)

text \<open>
  Claim C2. A request may name a genre more than once: \<open>create_record\<close> returns on
  every request. The genres table grows by one row for each name of the request that it
  did not hold, and by nothing else, so that no name is in it twice; the record that is
  returned has each genre that the request names once, and the association table links
  the new record to exactly these genres.
\<close>

theorem create_duplicate_genre_names:
  assumes "wf_db db"
  shows "\<exists>db' created new.
           create_record db record utcnow = Inr (db', created) \<and>
           genres db' = genres db @ new \<and>
           set (map g_name new) = set (genre_names record) - set (map g_name (genres db)) \<and>
           distinct (map g_name (genres db')) \<and>
           set (map g_name (o_genres created)) = set (genre_names record) \<and>
           distinct (map g_id (o_genres created)) \<and>
           distinct (map g_name (o_genres created)) \<and>
           {g. (r_id (o_columns created), g) \<in> record_genre db'} = g_id ` set (o_genres created)"
proof -
  from create_record_loaded[OF assms, of "record" utcnow] obtain db' created new where
    l: "create_record db record utcnow = Inr (db', created)"
       "o_columns created = new_Record (next_id (map r_id (records db))) record utcnow"
       "genres db' = genres db @ new"
       "set (map g_name new) = set (genre_names record) - set (map g_name (genres db))"
       "distinct (map g_name (genres db'))"
       "set (map g_name (o_genres created)) = set (genre_names record)"
       "distinct (map g_id (o_genres created))"
       "distinct (map g_name (o_genres created))"
       "{g. (next_id (map r_id (records db)), g) \<in> record_genre db'} = g_id ` set (o_genres created)"
    by blast
  from l(2) have id: "r_id (o_columns created) = next_id (map r_id (records db))"
    by (simp add: new_Record_def)
  from l show ?thesis unfolding id[symmetric] by blast
qed

theorem create_duplicate_genre_names_witness:
  "wf_db empty_db \<and> genre_names ex_create_duplicate = [''Rock'', ''Rock''] \<and>
   create_record empty_db ex_create_duplicate 739000
     = Inr (ex_db_duplicate, load ex_db_duplicate ex_row) \<and>
   genres ex_db_duplicate = [\<lparr>g_id = 1, g_name = ''Rock''\<rparr>] \<and>
   record_genre ex_db_duplicate = {(1, 1)} \<and>
   o_genres (load ex_db_duplicate ex_row) = [\<lparr>g_id = 1, g_name = ''Rock''\<rparr>]"
proof -
  have n: "genre_names ex_create_duplicate = [''Rock'', ''Rock'']"
    by (simp add: genre_names_def ex_create_duplicate_def)
  have t: "genres ex_db_duplicate = [\<lparr>g_id = 1, g_name = ''Rock''\<rparr>]"
    "record_genre ex_db_duplicate = {(1, 1)}"
    by (simp_all add: ex_db_duplicate_def)
  from create_duplicate_genre_names[OF wf_empty_db, of ex_create_duplicate 739000]
  obtain db' created new where
    c: "create_record empty_db ex_create_duplicate 739000 = Inr (db', created)"
    and s: "set (map g_name (o_genres created)) = set (genre_names ex_create_duplicate)"
    and d: "distinct (map g_name (o_genres created))"
    by blast
  from c ex_db_duplicate_created have e: "db' = ex_db_duplicate" "created = load ex_db_duplicate ex_row"
    by simp_all
  have "o_genres (load ex_db_duplicate ex_row) = [\<lparr>g_id = 1, g_name = ''Rock''\<rparr>]"
    by code_simp
  with n t wf_empty_db ex_db_duplicate_created s d e show ?thesis by simp
qed

text \<open>
  Claim C7 as it was stated fails: the schemas declare no constraint on the price, and
  a request with the price \<open>-1\<close> is stored like any other.
\<close>

theorem create_negative_price_counterexample:
  "create_record empty_db ex_create_negative 739000 =
     Inr (ex_db\<lparr>records := [ex_row\<lparr>r_purchase_price := Some (- 1)\<rparr>]\<rparr>,
          load (ex_db\<lparr>records := [ex_row\<lparr>r_purchase_price := Some (- 1)\<rparr>]\<rparr>)
            (ex_row\<lparr>r_purchase_price := Some (- 1)\<rparr>))"
  by code_simp

text \<open>
  Claim C7, as amended. A request with a title and an artist that are not empty and with
  pairwise distinct genre names is stored whatever its price is: \<open>create_record\<close>
  returns the record, with the title, the artist and the price of the request, a negative
  price included.
\<close>

theorem create_record_stores_any_price:
  assumes "wf_db db" and "distinct (genre_names record)"
    and "c_title record \<noteq> []" and "c_artist record \<noteq> []"
  shows "\<exists>db' created.
           create_record db record utcnow = Inr (db', created) \<and>
           get_record db' (r_id (o_columns created)) = Inr (Some created) \<and>
           r_title (o_columns created) = c_title record \<and>
           r_artist (o_columns created) = c_artist record \<and>
           r_purchase_price (o_columns created) = c_purchase_price record"
proof -
  from create_record_loaded[OF assms(1), of "record" utcnow] obtain db' created where
    l: "create_record db record utcnow = Inr (db', created)"
       "get_record db' (next_id (map r_id (records db))) = Inr (Some created)"
       "o_columns created = new_Record (next_id (map r_id (records db))) record utcnow"
    by blast
  then show ?thesis
    by (auto simp: new_Record_def)
qed

theorem create_record_stores_any_price_witness:
  "wf_db empty_db \<and> distinct (genre_names ex_create_negative) \<and>
   c_title ex_create_negative \<noteq> [] \<and> c_artist ex_create_negative \<noteq> [] \<and>
   c_purchase_price ex_create_negative = Some (- 1) \<and>
   r_purchase_price (o_columns (snd (projr (create_record empty_db ex_create_negative 739000))))
     = Some (- 1)"
proof -
  have h: "wf_db empty_db" "distinct (genre_names ex_create_negative)"
    "c_title ex_create_negative \<noteq> []" "c_artist ex_create_negative \<noteq> []"
    "c_purchase_price ex_create_negative = Some (- 1)"
    by (simp_all add: wf_empty_db genre_names_def ex_create_negative_def ex_create_def)
  from create_record_stores_any_price[OF h(1-4), of 739000] h show ?thesis
    by auto
qed

subsection \<open>update\_record\<close>

text \<open>
  Claim C5 says that an update with a \<open>tracks\<close> key replaces the tracks by the
  supplied list. \<^verbatim>\<open>record_update.dict(exclude_unset=True)\<close> turns the supplied
  tracks into dictionaries, and the loop of lines 130 to 137 reads \<^verbatim>\<open>track_data.title\<close>:
  the update raises on every list that is not empty, and nothing is committed. The
  request of the repository's test \<^verbatim>\<open>test_update_record\<close>, on the example database:
\<close>

theorem update_with_tracks_raises:
  "update_record ex_db 1 ex_update_test 739001 739001 = Inl AttributeError"
  by code_simp

text \<open>
  Claim C9 says that \<open>updated_at\<close> is not before \<open>created_at\<close> after an update.
  The record of \<open>ex_db\<close> was created on the UTC date 739000
  (\<^verbatim>\<open>default=datetime.utcnow\<close>). Line 144 sets \<^verbatim>\<open>date.today()\<close>, the local date, which
  in a time zone behind UTC is still 738999 at that moment:
\<close>

theorem update_dates_record_before_creation:
  "update_record ex_db 1 ex_retitle 738999 739000 =
     Inr (ex_db\<lparr>records := [ex_row\<lparr>r_title := ''Updated Title'', r_updated_at := 738999\<rparr>]\<rparr>,
          Some (load (ex_db\<lparr>records := [ex_row\<lparr>r_title := ''Updated Title'', r_updated_at := 738999\<rparr>]\<rparr>)
                  (ex_row\<lparr>r_title := ''Updated Title'', r_updated_at := 738999\<rparr>)))
   \<and> r_updated_at (ex_row\<lparr>r_title := ''Updated Title'', r_updated_at := 738999\<rparr>)
       < r_created_at (ex_row\<lparr>r_title := ''Updated Title'', r_updated_at := 738999\<rparr>)"
  by code_simp

text \<open>
  Claim C4 says that after an update with a \<open>genres\<close> key the record has exactly the
  genres that the request names. The record of \<open>ex_db\<close> has the genres Rock and Pop.
  The request \<^verbatim>\<open>{"genres": ["Rock", "Rock"]}\<close> empties the list, which notes the
  removal of the record from both genres, and appends Rock twice: the first append takes
  the removal back, the second is noted as an addition. The commit then inserts an
  association row that the table still holds, and the update raises. The request of
  the repository's test \<^verbatim>\<open>test_update_record\<close>, which asks for the genres Jazz and Blues
  and for one track, raises at the track. Neither request changes the genres of the
  record. (\<open>create_record\<close> takes the names \<^verbatim>\<open>["Rock", "Rock"]\<close>: lemma
  \<open>ex_db_duplicate_created\<close>.)
\<close>

theorem update_genres_not_replaced:
  "map g_name (genres_of ex_db 1) = [''Rock'', ''Pop''] \<and>
   u_genres ex_update_repeated = Some (Some [''Rock'', ''Rock'']) \<and>
   update_record ex_db 1 ex_update_repeated 739001 739001 = Inl IntegrityError \<and>
   u_genres ex_update_test = Some (Some [''Jazz'', ''Blues'']) \<and>
   update_record ex_db 1 ex_update_test 739001 739001 = Inl AttributeError"
  by code_simp

lemma handle_tracks_nonempty:
  "handle_tracks rid (Some (Some (t # ts))) tbl = Inl AttributeError"
  by (simp add: handle_tracks_def new_Track_def)

lemma update_record_tracks_nonempty:
  assumes "get_record db rid = Inr (Some ob)" and "u_tracks upd = Some (Some (t # ts))"
  shows "isl (update_record db rid upd today utcnow)"
  using assms
  by (auto simp: update_record_def handle_tracks_nonempty split: sum.split)

subsection \<open>What a flush writes\<close>

text \<open>The genres a record is linked to once what is noted has been flushed.\<close>

lemma others_kept_refl: "others_kept rid es es"
  by (simp add: others_kept_def)

lemma others_kept_trans: "others_kept rid a b \<Longrightarrow> others_kept rid b c \<Longrightarrow> others_kept rid a c"
  by (simp add: others_kept_def)

lemma flush_genres_result:
  assumes "flush_genres rid p es = Inr es'"
  shows "linked es' rid = (linked es rid - deleted_items p) \<union> added_items p"
    and "others_kept rid es es'"
proof -
  from assms have es': "es' = (es - Pair rid ` deleted_items p) \<union> Pair rid ` added_items p"
    by (simp add: flush_genres_def Let_def split: if_splits)
  show "linked es' rid = (linked es rid - deleted_items p) \<union> added_items p"
    unfolding es' linked_def by auto
  show "others_kept rid es es'"
    unfolding es' others_kept_def by auto
qed

lemma flush_genres_succeeds:
  assumes "added_items p \<inter> (linked es rid - deleted_items p) = {}"
  shows "\<exists>es'. flush_genres rid p es = Inr es'"
proof -
  have "Pair rid ` added_items p \<inter> (es - Pair rid ` deleted_items p) = {}"
    using assms unfolding linked_def by auto
  then show ?thesis by (simp add: flush_genres_def Let_def)
qed

lemma flush_genres_nothing: "flush_genres rid no_pending es = Inr es"
  by (simp add: flush_genres_def no_pending_def)

lemma flush_genres_repeated:
  assumes "g \<in> added_items p" and "(rid, g) \<in> es" and "g \<notin> deleted_items p"
  shows "flush_genres rid p es = Inl IntegrityError"
proof -
  have "(rid, g) \<in> Pair rid ` added_items p \<inter> (es - Pair rid ` deleted_items p)"
    using assms by auto
  then have "Pair rid ` added_items p \<inter> (es - Pair rid ` deleted_items p) \<noteq> {}" by blast
  then show ?thesis by (simp add: flush_genres_def Let_def)
qed

lemma pending_append_result:
  assumes "deleted_items p \<subseteq> linked es rid"
  shows "(linked es rid - deleted_items (pending_append g p)) \<union> added_items (pending_append g p)
         = insert g ((linked es rid - deleted_items p) \<union> added_items p)"
    and "deleted_items (pending_append g p) \<subseteq> linked es rid"
  using assms by (auto simp: pending_append_def)

lemma pending_append_disjoint:
  assumes "added_items p \<inter> (linked es rid - deleted_items p) = {}"
    and "g \<notin> (linked es rid - deleted_items p) \<union> added_items p"
  shows "added_items (pending_append g p) \<inter> (linked es rid - deleted_items (pending_append g p)) = {}"
  using assms by (auto simp: pending_append_def)

lemma fold_pending_remove:
  "added_items p = {} \<Longrightarrow>
   fold pending_remove gs p = p\<lparr>deleted_items := deleted_items p \<union> set gs\<rparr>"
proof (induction gs arbitrary: p)
  case Nil
  then show ?case by simp
next
  case (Cons g gs)
  have "added_items (pending_remove g p) = {}"
    using Cons.prems by (simp add: pending_remove_def)
  from Cons.IH[OF this] Cons.prems show ?case
    by (simp add: pending_remove_def)
qed

lemma pending_of_emptied:
  "fold pending_remove gs no_pending = \<lparr>added_items = {}, deleted_items = set gs\<rparr>"
  using fold_pending_remove[of no_pending gs] by (simp add: no_pending_def)

lemma named_Cons:
  assumes "g \<in> set tbl" and "g_name g = n" and "distinct (map g_name tbl)"
  shows "named tbl (n # names) = insert (g_id g) (named tbl names)"
proof -
  have inj: "inj_on g_name (set tbl)"
    using assms(3) by (simp add: distinct_map)
  have uniq: "g' = g" if "g' \<in> set tbl" "g_name g' = n" for g'
    using inj that assms(1,2) by (simp add: inj_on_def)
  have "x \<in> {g' \<in> set tbl. g_name g' \<in> set (n # names)}
        \<longleftrightarrow> x \<in> insert g {g' \<in> set tbl. g_name g' \<in> set names}" for x
  proof (cases "x = g")
    case True
    with assms(1,2) show ?thesis by simp
  next
    case False
    with uniq[of x] have "x \<notin> set tbl \<or> g_name x \<noteq> n" by blast
    with False show ?thesis by auto
  qed
  then have "{g' \<in> set tbl. g_name g' \<in> set (n # names)}
        = insert g {g' \<in> set tbl. g_name g' \<in> set names}"
    by (rule set_eqI)
  then show ?thesis
    by (simp only: named_def image_insert)
qed

lemma named_Nil: "named tbl [] = {}"
  by (simp add: named_def)

text \<open>The loop of \<open>update_record\<close>, when it runs through. \<open>C\<close> stands for the
  genres that the list of the record holds when the loop is entered.\<close>

lemma update_genres_post:
  assumes "update_genres rid names db p = Inr (db1, p1)"
    and "sorted_wrt (<) (map g_id (genres db))" and "distinct (map g_name (genres db))"
    and "deleted_items p \<subseteq> linked (record_genre db) rid"
    and "(linked (record_genre db) rid - deleted_items p) \<union> added_items p = C"
  shows "records db1 = records db \<and> tracks db1 = tracks db \<and>
         (\<exists>new. genres db1 = genres db @ new) \<and>
         sorted_wrt (<) (map g_id (genres db1)) \<and> distinct (map g_name (genres db1)) \<and>
         deleted_items p1 \<subseteq> linked (record_genre db1) rid \<and>
         (linked (record_genre db1) rid - deleted_items p1) \<union> added_items p1
           = C \<union> named (genres db1) names \<and>
         set names \<subseteq> g_name ` set (genres db1) \<and>
         others_kept rid (record_genre db) (record_genre db1)"
  using assms
proof (induction names arbitrary: db p C)
  case Nil
  then show ?case by (simp add: named_Nil others_kept_refl)
next
  case (Cons n names)
  show ?case
  proof (cases "get_genre_by_name db n")
    case (Some g)
    with Cons.prems(1) have rec: "update_genres rid names db (pending_append (g_id g) p) = Inr (db1, p1)"
      by simp
    note a = pending_append_result[OF Cons.prems(4), of "g_id g"]
    have inv: "(linked (record_genre db) rid - deleted_items (pending_append (g_id g) p))
               \<union> added_items (pending_append (g_id g) p) = insert (g_id g) C"
      using a(1) Cons.prems(5) by simp
    note ih = Cons.IH[OF rec Cons.prems(2,3) a(2) inv]
    from ih obtain new where new: "genres db1 = genres db @ new" by blast
    from get_genre_by_name_Some[OF Some] new have g: "g \<in> set (genres db1)" "g_name g = n"
      by simp_all
    from ih have d: "distinct (map g_name (genres db1))" by blast
    have nm: "named (genres db1) (n # names) = insert (g_id g) (named (genres db1) names)"
      using g d by (rule named_Cons)
    from ih have "(linked (record_genre db1) rid - deleted_items p1) \<union> added_items p1
           = insert (g_id g) C \<union> named (genres db1) names" by blast
    then have c: "(linked (record_genre db1) rid - deleted_items p1) \<union> added_items p1
           = C \<union> named (genres db1) (n # names)"
      unfolding nm by simp
    from ih g have s: "set (n # names) \<subseteq> g_name ` set (genres db1)"
      by auto
    from ih c s show ?thesis by blast
  next
    case None
    define g where "g = \<lparr>g_id = next_id (map g_id (genres db)), g_name = n\<rparr>"
    from None Cons.prems(1) obtain es where
      fl: "flush_genres rid p (record_genre db) = Inr es"
      by (cases "flush_genres rid p (record_genre db)") simp_all
    define db2 where "db2 = db\<lparr>record_genre := es, genres := genres db @ [g]\<rparr>"
    from None Cons.prems(1) fl have rec:
      "update_genres rid names db2 (pending_append (g_id g) no_pending) = Inr (db1, p1)"
      by (simp add: add_genre_def Let_def db2_def g_def)
    have s2: "sorted_wrt (<) (map g_id (genres db2))"
      using sorted_ids_snoc[OF Cons.prems(2)] by (simp add: db2_def g_def)
    have d2: "distinct (map g_name (genres db2))"
      using None Cons.prems(3) by (simp add: db2_def g_def get_genre_by_name_None)
    note f = flush_genres_result[OF fl]
    have l2: "linked (record_genre db2) rid = C"
      using f(1) Cons.prems(5) by (simp add: db2_def)
    have e: "deleted_items no_pending \<subseteq> linked (record_genre db2) rid"
      by (simp add: no_pending_def)
    note a = pending_append_result[OF e, of "g_id g"]
    have inv: "(linked (record_genre db2) rid - deleted_items (pending_append (g_id g) no_pending))
               \<union> added_items (pending_append (g_id g) no_pending) = insert (g_id g) C"
      using a(1) l2 by (simp add: no_pending_def)
    note ih = Cons.IH[OF rec s2 d2 a(2) inv]
    from ih obtain new where new: "genres db1 = genres db2 @ new" by blast
    then have new': "genres db1 = genres db @ (g # new)" by (simp add: db2_def)
    then have gin: "g \<in> set (genres db1)" "g_name g = n" by (simp_all add: g_def)
    from ih have d: "distinct (map g_name (genres db1))" by blast
    have nm: "named (genres db1) (n # names) = insert (g_id g) (named (genres db1) names)"
      using gin d by (rule named_Cons)
    from ih have "(linked (record_genre db1) rid - deleted_items p1) \<union> added_items p1
           = insert (g_id g) C \<union> named (genres db1) names" by blast
    then have c: "(linked (record_genre db1) rid - deleted_items p1) \<union> added_items p1
           = C \<union> named (genres db1) (n # names)"
      unfolding nm by simp
    from ih gin have s: "set (n # names) \<subseteq> g_name ` set (genres db1)"
      by auto
    from ih have "others_kept rid (record_genre db2) (record_genre db1)" by blast
    with f(2) have o: "others_kept rid (record_genre db) (record_genre db1)"
      by (auto simp: db2_def intro: others_kept_trans)
    from ih have fr: "records db1 = records db" "tracks db1 = tracks db"
      by (simp_all add: db2_def)
    from ih have rest: "sorted_wrt (<) (map g_id (genres db1))"
      "deleted_items p1 \<subseteq> linked (record_genre db1) rid"
      by blast+
    from new' have ex: "\<exists>new. genres db1 = genres db @ new" by blast
    from fr ex rest d c s o show ?thesis by blast
  qed
qed

lemma update_record_SomeE:
  assumes "update_record db rid upd today utcnow = Inr (db', Some updated)"
  obtains ob db1 p tbl pending edges where
    "get_record db rid = Inr (Some ob)"
    "handle_genres rid ob (u_genres upd) db = Inr (db1, p)"
    "handle_tracks rid (u_tracks upd) (tracks db1) = Inr (tbl, pending)"
    "\<not> not_null_violation upd"
    "flush_genres rid p (record_genre db1) = Inr edges"
    "db' = db1\<lparr>records := map (\<lambda>r. if r_id r = rid
                                      then touch (o_columns ob) (setattrs upd (o_columns ob)) today utcnow
                                      else r) (records db1),
                 record_genre := edges,
                 tracks := insert_tracks rid pending tbl\<rparr>"
    "updated = load db' (touch (o_columns ob) (setattrs upd (o_columns ob)) today utcnow)"
proof -
  from assms obtain ob where ob: "get_record db rid = Inr (Some ob)"
    by (auto simp: update_record_def split: sum.splits option.splits)
  from assms ob obtain db1 p where hg: "handle_genres rid ob (u_genres upd) db = Inr (db1, p)"
    by (cases "handle_genres rid ob (u_genres upd) db") (auto simp: update_record_def)
  from assms ob hg obtain tbl pending where ht: "handle_tracks rid (u_tracks upd) (tracks db1) = Inr (tbl, pending)"
    by (cases "handle_tracks rid (u_tracks upd) (tracks db1)") (auto simp: update_record_def)
  from assms ob hg ht have nn: "\<not> not_null_violation upd"
    by (auto simp: update_record_def split: if_splits)
  from assms ob hg ht nn obtain edges where fl: "flush_genres rid p (record_genre db1) = Inr edges"
    by (cases "flush_genres rid p (record_genre db1)") (auto simp: update_record_def)
  from assms ob hg ht nn fl have
    "db' = db1\<lparr>records := map (\<lambda>r. if r_id r = rid
                                      then touch (o_columns ob) (setattrs upd (o_columns ob)) today utcnow
                                      else r) (records db1),
                 record_genre := edges,
                 tracks := insert_tracks rid pending tbl\<rparr>"
    and "updated = load db' (touch (o_columns ob) (setattrs upd (o_columns ob)) today utcnow)"
    by (auto simp: update_record_def Let_def)
  with ob hg ht nn fl show ?thesis by (rule that)
qed

lemma touch_id [simp]: "r_id (touch old (setattrs upd old) today utcnow) = r_id old"
  by (simp add: touch_def setattrs_def)

lemma touch_created_at [simp]:
  "r_created_at (touch old (setattrs upd old) today utcnow) = r_created_at old"
  by (simp add: touch_def setattrs_def)

lemma linked_loaded:
  assumes "wf_db db"
  shows "linked (record_genre db) rid = set (map g_id (genres_of db rid))"
proof (rule set_eqI)
  fix g
  show "g \<in> linked (record_genre db) rid \<longleftrightarrow> g \<in> set (map g_id (genres_of db rid))"
  proof
    assume "g \<in> linked (record_genre db) rid"
    then have e: "(rid, g) \<in> record_genre db" by (simp add: linked_def)
    from wf_edge_genre[OF assms e] obtain x where "x \<in> set (genres db)" "g_id x = g" by auto
    with e have "x \<in> set (genres_of db rid)" by (simp add: genres_of_def)
    with \<open>g_id x = g\<close> show "g \<in> set (map g_id (genres_of db rid))" by force
  next
    assume "g \<in> set (map g_id (genres_of db rid))"
    then show "g \<in> linked (record_genre db) rid" by (auto simp: linked_def genres_of_def)
  qed
qed

lemma find_map_replace:
  assumes "find (\<lambda>r. r_id r = rid) xs = Some old" and "r_id row = rid"
  shows "find (\<lambda>r. r_id r = rid) (map (\<lambda>r. if r_id r = rid then row else r) xs) = Some row"
  using assms by (induction xs) (auto split: if_splits)

lemma filter_named:
  assumes "sorted_wrt (<) (map g_id tbl)"
  shows "filter (\<lambda>g. g_id g \<in> named tbl names) tbl = filter (\<lambda>g. g_name g \<in> set names) tbl"
proof (rule filter_cong[OF refl])
  fix g assume g: "g \<in> set tbl"
  have inj: "inj_on g_id (set tbl)" using assms by (rule inj_on_sorted_ids)
  show "(g_id g \<in> named tbl names) = (g_name g \<in> set names)"
  proof
    assume "g_id g \<in> named tbl names"
    then obtain g' where g': "g' \<in> set tbl" "g_name g' \<in> set names" "g_id g' = g_id g"
      by (auto simp: named_def)
    with inj g have "g' = g" by (simp add: inj_on_def)
    with g' show "g_name g \<in> set names" by simp
  next
    assume "g_name g \<in> set names"
    with g show "g_id g \<in> named tbl names" by (auto simp: named_def)
  qed
qed

text \<open>What the loop starts from: emptying the list notes the removal of every genre the
  record is linked to.\<close>

lemma handle_genres_loop:
  assumes "wf_db db" and "get_record db rid = Inr (Some ob)"
    and "handle_genres rid ob (Some (Some names)) db = Inr (db1, p)"
  shows "update_genres rid names db
           \<lparr>added_items = {}, deleted_items = linked (record_genre db) rid\<rparr> = Inr (db1, p)"
  using assms(3) get_record_loaded[OF assms(2)] linked_loaded[OF assms(1), of rid]
  by (simp add: handle_genres_def pending_of_emptied)

text \<open>After an update with a \<open>genres\<close> key that returns, the association rows of the
  record are those to the genres the request names.\<close>

lemma update_record_genres:
  assumes wf: "wf_db db" and key: "u_genres upd = Some (Some names)"
    and ok: "update_record db rid upd today utcnow = Inr (db', Some updated)"
  shows "linked (record_genre db') rid = named (genres db') names"
    and "o_genres updated = filter (\<lambda>g. g_name g \<in> set names) (genres db')"
    and "set names \<subseteq> g_name ` set (genres db')"
    and "get_record db' rid = Inr (Some updated)"
proof -
  from ok obtain ob db1 p tbl pending edges where
    ob: "get_record db rid = Inr (Some ob)"
    and hg: "handle_genres rid ob (u_genres upd) db = Inr (db1, p)"
    and fl: "flush_genres rid p (record_genre db1) = Inr edges"
    and db': "db' = db1\<lparr>records := map (\<lambda>r. if r_id r = rid
                                      then touch (o_columns ob) (setattrs upd (o_columns ob)) today utcnow
                                      else r) (records db1),
                 record_genre := edges,
                 tracks := insert_tracks rid pending tbl\<rparr>"
    and upd: "updated = load db' (touch (o_columns ob) (setattrs upd (o_columns ob)) today utcnow)"
    by (rule update_record_SomeE)
  define row where "row = touch (o_columns ob) (setattrs upd (o_columns ob)) today utcnow"
  from ob obtain old where old: "find (\<lambda>r. r_id r = rid) (records db) = Some old" "ob = load db old"
    and rng: "int64 rid"
    by (auto simp: get_record_Some_iff)
  then have old_id: "r_id old = rid" by (auto simp: find_Some_iff)
  have row_id: "r_id row = rid" using old old_id by (simp add: row_def)
  note loop = handle_genres_loop[OF wf ob hg[unfolded key]]
  from wf have s: "sorted_wrt (<) (map g_id (genres db))" and d: "distinct (map g_name (genres db))"
    by (simp_all add: wf_db_def)
  have "records db1 = records db \<and> tracks db1 = tracks db \<and>
         (\<exists>new. genres db1 = genres db @ new) \<and>
         sorted_wrt (<) (map g_id (genres db1)) \<and> distinct (map g_name (genres db1)) \<and>
         deleted_items p \<subseteq> linked (record_genre db1) rid \<and>
         (linked (record_genre db1) rid - deleted_items p) \<union> added_items p
           = {} \<union> named (genres db1) names \<and>
         set names \<subseteq> g_name ` set (genres db1) \<and>
         others_kept rid (record_genre db) (record_genre db1)"
    by (rule update_genres_post[OF loop s d]) simp_all
  then have c: "(linked (record_genre db1) rid - deleted_items p) \<union> added_items p
                = named (genres db1) names"
    and s1: "sorted_wrt (<) (map g_id (genres db1))"
    and n1: "set names \<subseteq> g_name ` set (genres db1)"
    and r1: "records db1 = records db"
    by simp_all
  have g': "genres db' = genres db1" and e': "record_genre db' = edges"
    by (simp_all add: db')
  from flush_genres_result(1)[OF fl] c show 1: "linked (record_genre db') rid = named (genres db') names"
    by (simp add: g' e')
  have "genres_of db' rid = filter (\<lambda>g. g_id g \<in> linked (record_genre db') rid) (genres db')"
    by (simp add: genres_of_def linked_def)
  also have "\<dots> = filter (\<lambda>g. g_name g \<in> set names) (genres db')"
    unfolding 1 using s1 by (simp only: g' filter_named)
  finally show "o_genres updated = filter (\<lambda>g. g_name g \<in> set names) (genres db')"
    using row_id by (simp add: upd row_def[symmetric])
  from n1 show "set names \<subseteq> g_name ` set (genres db')" by (simp add: g')
  have "find (\<lambda>r. r_id r = rid) (records db') = Some row"
    using find_map_replace[OF old(1) row_id] unfolding row_def by (simp add: db' r1)
  then show "get_record db' rid = Inr (Some updated)"
    using rng by (simp add: get_record_def upd row_def)
qed

lemma ex_db3_updated:
  "update_record ex_db2 1 ex_update 739002 739002 = Inr (ex_db3, Some (load ex_db3 ex_row_updated))"
  by code_simp

text \<open>
  When an update whose request has a \<open>genres\<close> key returns the record, the record's
  genres are exactly the genres of the table that the request names: the names of its
  genres are the names of the request, and it has an association row for a genre if and
  only if the genre is one of those. Reading the record again returns the same object.
\<close>

lemma update_replaces_genres:
  assumes "wf_db db" and "u_genres record_update = Some (Some names)"
    and "update_record db rid record_update today utcnow = Inr (db', Some updated)"
  shows "get_record db' rid = Inr (Some updated) \<and>
         o_genres updated = filter (\<lambda>g. g_name g \<in> set names) (genres db') \<and>
         set (map g_name (o_genres updated)) = set names \<and>
         (\<forall>g. (rid, g) \<in> record_genre db' \<longleftrightarrow> g \<in> g_id ` set (o_genres updated))"
proof -
  note u = update_record_genres[OF assms]
  have "set (map g_name (filter (\<lambda>g. g_name g \<in> set names) (genres db'))) = set names"
    using u(3) by auto
  moreover have "(rid, g) \<in> record_genre db' \<longleftrightarrow>
        g \<in> g_id ` set (filter (\<lambda>g. g_name g \<in> set names) (genres db'))" for g
    using u(1) by (auto simp: linked_def named_def)
  ultimately show ?thesis
    using u(2,4) by simp
qed

subsection \<open>Updates that return, and updates that cannot\<close>

lemma named_subset_ids: "named tbl names \<subseteq> g_id ` set tbl"
  by (auto simp: named_def)

lemma named_mono: "named tbl names \<subseteq> named tbl (n # names)"
  by (auto simp: named_def)

lemma named_snoc_other:
  "n \<notin> set names \<Longrightarrow> named (tbl @ [\<lparr>g_id = i, g_name = n\<rparr>]) names = named tbl names"
  by (auto simp: named_def)

lemma named_member:
  assumes "g \<in> set tbl" and "sorted_wrt (<) (map g_id tbl)"
  shows "g_id g \<in> named tbl names \<longleftrightarrow> g_name g \<in> set names"
proof
  assume "g_id g \<in> named tbl names"
  then obtain g' where g': "g' \<in> set tbl" "g_name g' \<in> set names" "g_id g' = g_id g"
    by (auto simp: named_def)
  from inj_on_sorted_ids[OF assms(2)] g' assms(1) have "g' = g" by (simp add: inj_on_def)
  with g' show "g_name g \<in> set names" by simp
next
  assume "g_name g \<in> set names"
  with assms(1) show "g_id g \<in> named tbl names" by (auto simp: named_def)
qed

text \<open>The loop runs through when no name is repeated, and leaves nothing that the
  flush of the commit would refuse.\<close>

lemma update_genres_succeeds:
  assumes "distinct names"
    and "deleted_items p \<subseteq> linked (record_genre db) rid"
    and "(linked (record_genre db) rid - deleted_items p) \<union> added_items p = C"
    and "added_items p \<inter> (linked (record_genre db) rid - deleted_items p) = {}"
    and "C \<subseteq> g_id ` set (genres db)"
    and "C \<inter> named (genres db) names = {}"
    and "sorted_wrt (<) (map g_id (genres db))" and "distinct (map g_name (genres db))"
  shows "\<exists>db1 p1. update_genres rid names db p = Inr (db1, p1) \<and>
           added_items p1 \<inter> (linked (record_genre db1) rid - deleted_items p1) = {}"
  using assms
proof (induction names arbitrary: db p C)
  case Nil
  then show ?case by simp
next
  case (Cons n names)
  from Cons.prems(1) have dn: "distinct names" and nn: "n \<notin> set names" by simp_all
  show ?case
  proof (cases "get_genre_by_name db n")
    case (Some g)
    from get_genre_by_name_Some[OF Some] have g: "g \<in> set (genres db)" "g_name g = n" by simp_all
    have in_named: "g_id g \<in> named (genres db) (n # names)"
      using g by (auto simp: named_def)
    with Cons.prems(6) have fresh: "g_id g \<notin> C" by blast
    have not_named: "g_id g \<notin> named (genres db) names"
      using named_member[OF g(1) Cons.prems(7)] g(2) nn by simp
    note a = pending_append_result[OF Cons.prems(2), of "g_id g"]
    have 2: "(linked (record_genre db) rid - deleted_items (pending_append (g_id g) p))
             \<union> added_items (pending_append (g_id g) p) = insert (g_id g) C"
      using a(1) Cons.prems(3) by simp
    have 3: "added_items (pending_append (g_id g) p)
             \<inter> (linked (record_genre db) rid - deleted_items (pending_append (g_id g) p)) = {}"
      using Cons.prems(4) fresh unfolding Cons.prems(3)[symmetric]
      by (rule pending_append_disjoint)
    have 4: "insert (g_id g) C \<subseteq> g_id ` set (genres db)"
      using Cons.prems(5) g(1) by auto
    have 5: "insert (g_id g) C \<inter> named (genres db) names = {}"
      using Cons.prems(6) named_mono[of "genres db" names n] not_named by auto
    from Cons.IH[OF dn a(2) 2 3 4 5 Cons.prems(7,8)] Some show ?thesis by simp
  next
    case None
    define g where "g = \<lparr>g_id = next_id (map g_id (genres db)), g_name = n\<rparr>"
    from flush_genres_succeeds[OF Cons.prems(4)] obtain es where
      fl: "flush_genres rid p (record_genre db) = Inr es" by blast
    define db2 where "db2 = db\<lparr>record_genre := es, genres := genres db @ [g]\<rparr>"
    have gid: "g_id g = next_id (map g_id (genres db))" by (simp add: g_def)
    have fresh: "g_id g \<notin> g_id ` set (genres db)"
      using next_id_fresh[of "map g_id (genres db)"] by (simp add: gid)
    with Cons.prems(5) have fresh_C: "g_id g \<notin> C" by blast
    have l2: "linked (record_genre db2) rid = C"
      using flush_genres_result(1)[OF fl] Cons.prems(3) by (simp add: db2_def)
    have e: "deleted_items no_pending \<subseteq> linked (record_genre db2) rid"
      by (simp add: no_pending_def)
    note a = pending_append_result[OF e, of "g_id g"]
    have 2: "(linked (record_genre db2) rid - deleted_items (pending_append (g_id g) no_pending))
             \<union> added_items (pending_append (g_id g) no_pending) = insert (g_id g) C"
      using a(1) l2 by (simp add: no_pending_def)
    have 3: "added_items (pending_append (g_id g) no_pending)
             \<inter> (linked (record_genre db2) rid - deleted_items (pending_append (g_id g) no_pending)) = {}"
      using fresh_C l2 by (simp add: pending_append_def no_pending_def)
    have 4: "insert (g_id g) C \<subseteq> g_id ` set (genres db2)"
      using Cons.prems(5) by (auto simp: db2_def)
    have nm: "named (genres db2) names = named (genres db) names"
      using named_snoc_other[OF nn] by (simp add: db2_def g_def)
    have 5: "insert (g_id g) C \<inter> named (genres db2) names = {}"
      using Cons.prems(6) named_mono[of "genres db" names n] fresh
        named_subset_ids[of "genres db" names] unfolding nm by auto
    have 6: "sorted_wrt (<) (map g_id (genres db2))"
      using sorted_ids_snoc[OF Cons.prems(7)] by (simp add: db2_def g_def)
    have 7: "distinct (map g_name (genres db2))"
      using None Cons.prems(8) by (simp add: db2_def g_def get_genre_by_name_None)
    from Cons.IH[OF dn a(2) 2 3 4 5 6 7] None fl show ?thesis
      by (simp add: add_genre_def Let_def db2_def g_def)
  qed
qed

lemma handle_tracks_empty:
  "handle_tracks rid None tbl = Inr (tbl, [])"
  "handle_tracks rid (Some (Some [])) tbl = Inr (filter (\<lambda>t. t_record_id t \<noteq> rid) tbl, [])"
  by (simp_all add: handle_tracks_def)

text \<open>An update of an existing record returns the record when the request repeats no
  genre name, carries no track (no \<open>tracks\<close> key, or the empty list) and sets neither
  \<open>title\<close> nor \<open>artist\<close> to \<^verbatim>\<open>None\<close>.\<close>

lemma update_record_succeeds:
  assumes wf: "wf_db db" and ob: "get_record db rid = Inr (Some ob)"
    and gk: "u_genres upd = None \<or> (\<exists>names. u_genres upd = Some (Some names) \<and> distinct names)"
    and tk: "u_tracks upd = None \<or> u_tracks upd = Some (Some [])"
    and nn: "\<not> not_null_violation upd"
  shows "\<exists>db' updated. update_record db rid upd today utcnow = Inr (db', Some updated)"
proof -
  have "\<exists>db1 p edges. handle_genres rid ob (u_genres upd) db = Inr (db1, p) \<and>
          flush_genres rid p (record_genre db1) = Inr edges"
  proof (cases "u_genres upd")
    case None
    then show ?thesis by (simp add: handle_genres_def flush_genres_nothing)
  next
    case (Some v)
    with gk obtain names where names: "u_genres upd = Some (Some names)" "distinct names" by auto
    from wf have s: "sorted_wrt (<) (map g_id (genres db))" and d: "distinct (map g_name (genres db))"
      by (simp_all add: wf_db_def)
    have "\<exists>db1 p1. update_genres rid names db
              \<lparr>added_items = {}, deleted_items = linked (record_genre db) rid\<rparr> = Inr (db1, p1) \<and>
           added_items p1 \<inter> (linked (record_genre db1) rid - deleted_items p1) = {}"
      by (rule update_genres_succeeds[OF names(2) _ _ _ _ _ s d, of _ _ "{}"]) simp_all
    then obtain db1 p1 where
      loop: "update_genres rid names db
              \<lparr>added_items = {}, deleted_items = linked (record_genre db) rid\<rparr> = Inr (db1, p1)"
      and dj: "added_items p1 \<inter> (linked (record_genre db1) rid - deleted_items p1) = {}"
      by blast
    from loop have "handle_genres rid ob (u_genres upd) db = Inr (db1, p1)"
      using get_record_loaded[OF ob] linked_loaded[OF wf, of rid] names(1)
      by (simp add: handle_genres_def pending_of_emptied)
    with flush_genres_succeeds[OF dj] show ?thesis by blast
  qed
  then obtain db1 p edges where
    hg: "handle_genres rid ob (u_genres upd) db = Inr (db1, p)"
    and fl: "flush_genres rid p (record_genre db1) = Inr edges" by blast
  from tk obtain tbl where ht: "handle_tracks rid (u_tracks upd) (tracks db1) = Inr (tbl, [])"
    using handle_tracks_empty by metis
  from ob hg fl ht nn show ?thesis
    by (simp add: update_record_def Let_def)
qed

text \<open>Once a genre that the record is linked to is noted as an addition, no later step
  of the loop takes the note back, and every flush raises.\<close>

lemma update_genres_repeated:
  assumes "g \<in> added_items p" and "(rid, g) \<in> record_genre db" and "g \<notin> deleted_items p"
  shows "case update_genres rid names db p of
           Inl e \<Rightarrow> True
         | Inr (db1, p1) \<Rightarrow>
             g \<in> added_items p1 \<and> (rid, g) \<in> record_genre db1 \<and> g \<notin> deleted_items p1"
  using assms
proof (induction names arbitrary: p)
  case Nil
  then show ?case by simp
next
  case (Cons n names)
  show ?case
  proof (cases "get_genre_by_name db n")
    case (Some x)
    have "g \<in> added_items (pending_append (g_id x) p)" "g \<notin> deleted_items (pending_append (g_id x) p)"
      using Cons.prems by (auto simp: pending_append_def)
    from Cons.IH[OF this(1) Cons.prems(2) this(2)] Some show ?thesis by simp
  next
    case None
    with flush_genres_repeated[OF Cons.prems] show ?thesis by simp
  qed
qed

text \<open>So an update raises whenever its request begins with the name of one of the
  record's genres twice.\<close>

lemma update_record_repeated_linked:
  assumes wf: "wf_db db" and ob: "get_record db rid = Inr (Some ob)"
    and key: "u_genres upd = Some (Some (n # n # rest))"
    and linked: "n \<in> g_name ` set (o_genres ob)"
  shows "isl (update_record db rid upd today utcnow)"
proof -
  note l = get_record_loaded[OF ob]
  from linked l obtain x where x: "x \<in> set (genres db)" "g_name x = n" "(rid, g_id x) \<in> record_genre db"
    by (auto simp: genres_of_def)
  from wf have d: "distinct (map g_name (genres db))" by (simp add: wf_db_def)
  have "find (\<lambda>g. g_name g = n) (genres db) = Some x"
  proof -
    from x(1,2) obtain y where y: "find (\<lambda>g. g_name g = n) (genres db) = Some y"
      by (cases "find (\<lambda>g. g_name g = n) (genres db)") (auto simp: find_None_iff)
    then have "y \<in> set (genres db)" "g_name y = n" by (auto simp: find_Some_iff)
    with x(1,2) d have "y = x" by (auto simp: distinct_map inj_on_def)
    with y show ?thesis by simp
  qed
  then have f: "get_genre_by_name db n = Some x" by (simp add: get_genre_by_name_def)
  define p0 where "p0 = \<lparr>added_items = {}, deleted_items = linked (record_genre db) rid\<rparr>"
  define p2 where "p2 = pending_append (g_id x) (pending_append (g_id x) p0)"
  have in0: "g_id x \<in> deleted_items p0"
    using x(3) by (simp add: p0_def linked_def)
  have p2: "g_id x \<in> added_items p2" "g_id x \<notin> deleted_items p2"
    using in0 by (simp_all add: p2_def pending_append_def)
  have hg: "handle_genres rid ob (u_genres upd) db = update_genres rid rest db p2"
    using key l linked_loaded[OF wf, of rid] f
    by (simp add: handle_genres_def pending_of_emptied p2_def p0_def)
  show ?thesis
  proof (cases "update_genres rid rest db p2")
    case (Inl e)
    with hg ob show ?thesis by (simp add: update_record_def)
  next
    case (Inr r)
    obtain db1 p1 where r: "r = (db1, p1)" by (cases r)
    from update_genres_repeated[OF p2(1) x(3) p2(2), of rest] Inr r
    have "g_id x \<in> added_items p1" "(rid, g_id x) \<in> record_genre db1" "g_id x \<notin> deleted_items p1"
      by simp_all
    then have "flush_genres rid p1 (record_genre db1) = Inl IntegrityError"
      by (rule flush_genres_repeated)
    with hg ob Inr r show ?thesis
      by (auto simp: update_record_def split: sum.splits)
  qed
qed

subsection \<open>The frame of an update\<close>

lemma update_genres_frame:
  "update_genres rid names db p = Inr (db1, p1) \<Longrightarrow>
   records db1 = records db \<and> tracks db1 = tracks db"
proof (induction names arbitrary: db p)
  case Nil
  then show ?case by simp
next
  case (Cons n names)
  show ?case
  proof (cases "get_genre_by_name db n")
    case (Some g)
    with Cons.prems have "update_genres rid names db (pending_append (g_id g) p) = Inr (db1, p1)"
      by simp
    from Cons.IH[OF this] show ?thesis .
  next
    case None
    with Cons.prems obtain es where
      fl: "flush_genres rid p (record_genre db) = Inr es"
      by (cases "flush_genres rid p (record_genre db)") simp_all
    define g where "g = \<lparr>g_id = next_id (map g_id (genres db)), g_name = n\<rparr>"
    define db2 where "db2 = db\<lparr>record_genre := es, genres := genres db @ [g]\<rparr>"
    from None Cons.prems fl have
      "update_genres rid names db2 (pending_append (g_id g) no_pending) = Inr (db1, p1)"
      by (simp add: add_genre_def Let_def db2_def g_def)
    from Cons.IH[OF this] show ?thesis by (simp add: db2_def)
  qed
qed

lemma handle_genres_frame:
  "handle_genres rid ob gk db = Inr (db1, p) \<Longrightarrow>
   records db1 = records db \<and> tracks db1 = tracks db"
  by (auto simp: handle_genres_def update_genres_frame split: option.splits)

lemma handle_genres_absent:
  "handle_genres rid ob None db = Inr (db, no_pending)"
  by (simp add: handle_genres_def)

lemma insert_tracks_Nil: "insert_tracks rid [] tbl = tbl"
  by simp

lemma touch_columns:
  "r_id (touch old new today utcnow) = r_id new"
  "r_created_at (touch old new today utcnow) = r_created_at new"
  "r_title (touch old new today utcnow) = r_title new"
  "r_artist (touch old new today utcnow) = r_artist new"
  "r_release_date (touch old new today utcnow) = r_release_date new"
  "r_label (touch old new today utcnow) = r_label new"
  "r_catalog_number (touch old new today utcnow) = r_catalog_number new"
  "r_format (touch old new today utcnow) = r_format new"
  "r_condition (touch old new today utcnow) = r_condition new"
  "r_purchase_date (touch old new today utcnow) = r_purchase_date new"
  "r_purchase_price (touch old new today utcnow) = r_purchase_price new"
  "r_album_art_url (touch old new today utcnow) = r_album_art_url new"
  "r_notes (touch old new today utcnow) = r_notes new"
  "r_discogs_url (touch old new today utcnow) = r_discogs_url new"
  "r_review_url (touch old new today utcnow) = r_review_url new"
  by (simp_all add: touch_def)

lemma touch_updated_at:
  "r_updated_at (touch old (setattrs upd old) today utcnow) = today \<or>
   r_updated_at (touch old (setattrs upd old) today utcnow) = utcnow"
  by (auto simp: touch_def setattrs_def)

text \<open>The frame of an update that returns the record: the id and the creation date
  stay, a column whose key is absent from the request keeps its value, a column whose
  key is present takes the value of the request, and the relationships whose key is
  absent are as before.\<close>

lemma update_record_frame:
  assumes "get_record db rid = Inr (Some before)"
    and "update_record db rid upd today utcnow = Inr (db', Some updated)"
  shows "r_id (o_columns updated) = rid"
    and "r_created_at (o_columns updated) = r_created_at (o_columns before)"
    and "r_title (o_columns updated) = set_required (u_title upd) (r_title (o_columns before))"
    and "r_artist (o_columns updated) = set_required (u_artist upd) (r_artist (o_columns before))"
    and "r_release_date (o_columns updated) = set_column (u_release_date upd) (r_release_date (o_columns before))"
    and "r_label (o_columns updated) = set_column (u_label upd) (r_label (o_columns before))"
    and "r_catalog_number (o_columns updated) = set_column (u_catalog_number upd) (r_catalog_number (o_columns before))"
    and "r_format (o_columns updated) = set_column (u_format upd) (r_format (o_columns before))"
    and "r_condition (o_columns updated) = set_column (u_condition upd) (r_condition (o_columns before))"
    and "r_purchase_date (o_columns updated) = set_column (u_purchase_date upd) (r_purchase_date (o_columns before))"
    and "r_purchase_price (o_columns updated) = set_column (u_purchase_price upd) (r_purchase_price (o_columns before))"
    and "r_album_art_url (o_columns updated) = set_column (u_album_art_url upd) (r_album_art_url (o_columns before))"
    and "r_notes (o_columns updated) = set_column (u_notes upd) (r_notes (o_columns before))"
    and "r_discogs_url (o_columns updated) = set_column (u_discogs_url upd) (r_discogs_url (o_columns before))"
    and "r_review_url (o_columns updated) = set_column (u_review_url upd) (r_review_url (o_columns before))"
    and "r_updated_at (o_columns updated) = today \<or> r_updated_at (o_columns updated) = utcnow"
    and "u_genres upd = None \<Longrightarrow> o_genres updated = o_genres before"
    and "u_tracks upd = None \<Longrightarrow> o_tracks updated = o_tracks before"
proof -
  from assms(2) obtain ob db1 p tbl pending edges where
    ob: "get_record db rid = Inr (Some ob)"
    and hg: "handle_genres rid ob (u_genres upd) db = Inr (db1, p)"
    and ht: "handle_tracks rid (u_tracks upd) (tracks db1) = Inr (tbl, pending)"
    and fl: "flush_genres rid p (record_genre db1) = Inr edges"
    and db': "db' = db1\<lparr>records := map (\<lambda>r. if r_id r = rid
                                      then touch (o_columns ob) (setattrs upd (o_columns ob)) today utcnow
                                      else r) (records db1),
                 record_genre := edges,
                 tracks := insert_tracks rid pending tbl\<rparr>"
    and upd: "updated = load db' (touch (o_columns ob) (setattrs upd (o_columns ob)) today utcnow)"
    by (rule update_record_SomeE)
  from ob assms(1) have same: "ob = before" by simp
  define old where "old = o_columns before"
  have cols: "o_columns updated = touch old (setattrs upd old) today utcnow"
    by (simp add: upd same old_def)
  have old_id: "r_id old = rid"
    using get_record_id[OF assms(1)] by (simp add: old_def)
  have before: "o_genres before = genres_of db rid" "o_tracks before = tracks_of db rid"
    using get_record_loaded[OF assms(1)] by simp_all
  have rel: "o_genres updated = genres_of db' rid" "o_tracks updated = tracks_of db' rid"
    using get_record_id[OF ob] by (simp_all add: upd)
  show "r_id (o_columns updated) = rid"
    by (simp add: cols old_id)
  show "r_created_at (o_columns updated) = r_created_at (o_columns before)"
    by (simp add: cols old_def)
  show "r_title (o_columns updated) = set_required (u_title upd) (r_title (o_columns before))"
    and "r_artist (o_columns updated) = set_required (u_artist upd) (r_artist (o_columns before))"
    and "r_release_date (o_columns updated) = set_column (u_release_date upd) (r_release_date (o_columns before))"
    and "r_label (o_columns updated) = set_column (u_label upd) (r_label (o_columns before))"
    and "r_catalog_number (o_columns updated) = set_column (u_catalog_number upd) (r_catalog_number (o_columns before))"
    and "r_format (o_columns updated) = set_column (u_format upd) (r_format (o_columns before))"
    and "r_condition (o_columns updated) = set_column (u_condition upd) (r_condition (o_columns before))"
    and "r_purchase_date (o_columns updated) = set_column (u_purchase_date upd) (r_purchase_date (o_columns before))"
    and "r_purchase_price (o_columns updated) = set_column (u_purchase_price upd) (r_purchase_price (o_columns before))"
    and "r_album_art_url (o_columns updated) = set_column (u_album_art_url upd) (r_album_art_url (o_columns before))"
    and "r_notes (o_columns updated) = set_column (u_notes upd) (r_notes (o_columns before))"
    and "r_discogs_url (o_columns updated) = set_column (u_discogs_url upd) (r_discogs_url (o_columns before))"
    and "r_review_url (o_columns updated) = set_column (u_review_url upd) (r_review_url (o_columns before))"
    unfolding cols old_def[symmetric] touch_columns by (simp_all add: setattrs_def)
  show "r_updated_at (o_columns updated) = today \<or> r_updated_at (o_columns updated) = utcnow"
    unfolding cols by (rule touch_updated_at)
  show "o_genres updated = o_genres before" if "u_genres upd = None"
  proof -
    from hg that have "db1 = db" "p = no_pending"
      by (simp_all add: handle_genres_absent)
    with fl have "edges = record_genre db" by (simp add: flush_genres_nothing)
    with \<open>db1 = db\<close> have "genres_of db' rid = genres_of db rid"
      by (simp add: db' genres_of_def)
    with rel before show ?thesis by simp
  qed
  show "o_tracks updated = o_tracks before" if "u_tracks upd = None"
  proof -
    from ht that have "tbl = tracks db1" "pending = []"
      by (simp_all add: handle_tracks_empty)
    with handle_genres_frame[OF hg] have "tracks_of db' rid = tracks_of db rid"
      by (simp add: db' tracks_of_def)
    with rel before show ?thesis by simp
  qed
qed

text \<open>When the local date is the UTC date and is not before the creation date, the
  update sets \<open>updated_at\<close> to that date, which is then not before \<open>created_at\<close>.\<close>

lemma update_record_timestamps:
  assumes "get_record db rid = Inr (Some before)"
    and "update_record db rid upd today utcnow = Inr (db', Some updated)"
    and "utcnow = today" and "r_created_at (o_columns before) \<le> today"
  shows "r_updated_at (o_columns updated) = today"
    and "r_created_at (o_columns updated) \<le> r_updated_at (o_columns updated)"
proof -
  from update_record_frame(16)[OF assms(1,2)] assms(3)
  show u: "r_updated_at (o_columns updated) = today" by auto
  from update_record_frame(2)[OF assms(1,2)] assms(4) u
  show "r_created_at (o_columns updated) \<le> r_updated_at (o_columns updated)" by simp
qed

subsection \<open>The operations keep the constraints\<close>

lemma wf_dbI:
  assumes "sorted_wrt (<) (map r_id (records db))"
    and "sorted_wrt (<) (map g_id (genres db))"
    and "sorted_wrt (<) (map t_id (tracks db))"
    and "distinct (map g_name (genres db))"
    and "\<And>r. r \<in> set (records db) \<Longrightarrow> int64 (r_id r) \<and> int64 (r_id r + 1)"
    and "\<And>r g. (r, g) \<in> record_genre db \<Longrightarrow>
           r \<in> r_id ` set (records db) \<and> g \<in> g_id ` set (genres db)"
    and "\<And>t. t \<in> set (tracks db) \<Longrightarrow> t_record_id t \<in> r_id ` set (records db)"
  shows "wf_db db"
proof -
  have "fst ` record_genre db \<subseteq> set (map r_id (records db))"
    "snd ` record_genre db \<subseteq> set (map g_id (genres db))"
    using assms(6) by auto
  with assms(1-5,7) show ?thesis
    unfolding wf_db_def list_all_iff by simp
qed

text \<open>\<open>create_record\<close> keeps the constraints as long as the new id is not the largest
  64-bit integer.\<close>

lemma wf_create_record:
  assumes wf: "wf_db db" and ok: "create_record db record utcnow = Inr (db', created)"
    and room: "int64 (next_id (map r_id (records db)) + 1)"
  shows "wf_db db'"
proof -
  let ?rid = "next_id (map r_id (records db))"
  let ?row = "new_Record ?rid record utcnow"
  from create_record_char[OF wf, of "record" utcnow] obtain new gs newt where
    h: "map g_name gs = genre_names record"
       "set gs \<subseteq> set (genres db @ new)"
       "sorted_wrt (<) (map g_id (genres db @ new))"
       "distinct (map g_name (genres db @ new))"
       "\<forall>t \<in> set newt. t_record_id t = ?rid"
       "sorted_wrt (<) (map t_id (tracks db @ newt))"
    and c: "create_record db record utcnow =
       (let row = ?row;
            db2 = \<lparr>records = records db @ [row], genres = genres db @ new,
                   tracks = tracks db @ newt,
                   record_genre = record_genre db \<union> Pair (r_id row) ` set (map g_id gs)\<rparr>
        in Inr (db2, load db2 row))"
    by metis
  have rid: "r_id ?row = ?rid" by (simp add: new_Record_def)
  from c ok have db': "db' = \<lparr>records = records db @ [?row], genres = genres db @ new,
                      tracks = tracks db @ newt,
                      record_genre = record_genre db \<union> Pair ?rid ` set (map g_id gs)\<rparr>"
    by (simp add: Let_def rid)
  show ?thesis
  proof (rule wf_dbI)
    show "sorted_wrt (<) (map r_id (records db'))"
      using sorted_ids_snoc[of "map r_id (records db)"] wf by (simp add: db' rid wf_db_def)
    show "sorted_wrt (<) (map g_id (genres db'))" using h(3) by (simp add: db')
    show "sorted_wrt (<) (map t_id (tracks db'))" using h(6) by (simp add: db')
    show "distinct (map g_name (genres db'))" using h(4) by (simp add: db')
    show "int64 (r_id r) \<and> int64 (r_id r + 1)" if "r \<in> set (records db')" for r
    proof (cases "r \<in> set (records db)")
      case True
      with wf_record_int64[OF wf, of "r_id r"] show ?thesis by simp
    next
      case False
      with that have "r = ?row" by (simp add: db')
      with room wf_next_id_int64[OF wf] show ?thesis by (simp add: rid)
    qed
    show "r \<in> r_id ` set (records db') \<and> g \<in> g_id ` set (genres db')"
      if "(r, g) \<in> record_genre db'" for r g
    proof (cases "(r, g) \<in> record_genre db")
      case True
      from wf_edge_record[OF wf True] wf_edge_genre[OF wf True] show ?thesis
        by (auto simp: db')
    next
      case False
      with that have "r = ?rid" "g \<in> g_id ` set gs" by (auto simp: db')
      with h(2) show ?thesis by (auto simp: db' rid)
    qed
    show "t_record_id t \<in> r_id ` set (records db')" if "t \<in> set (tracks db')" for t
    proof (cases "t \<in> set (tracks db)")
      case True
      from wf_track_record[OF wf True] show ?thesis by (auto simp: db')
    next
      case False
      with that h(5) have "t_record_id t = ?rid" by (auto simp: db')
      then show ?thesis by (simp add: db' rid)
    qed
  qed
qed

lemma wf_delete_record:
  assumes wf: "wf_db db" and ok: "delete_record db rid = Inr (db', deleted)"
  shows "wf_db db'"
proof (cases "get_record db rid")
  case (Inl e)
  with ok show ?thesis by (simp add: delete_record_def)
next
  case (Inr found)
  show ?thesis
  proof (cases found)
    case None
    with Inr ok wf show ?thesis by (simp add: delete_record_missing)
  next
    case (Some ob)
    let ?db = "db\<lparr>records := filter (\<lambda>r. r_id r \<noteq> rid) (records db),
                 tracks := filter (\<lambda>t. t_record_id t \<noteq> rid) (tracks db),
                 record_genre := {e \<in> record_genre db. fst e \<noteq> rid}\<rparr>"
    have "wf_db ?db"
    proof (rule wf_dbI)
      show "sorted_wrt (<) (map r_id (records ?db))"
        using wf by (simp add: wf_db_def sorted_ids_filter)
      show "sorted_wrt (<) (map g_id (genres ?db))" "distinct (map g_name (genres ?db))"
        using wf by (simp_all add: wf_db_def)
      show "sorted_wrt (<) (map t_id (tracks ?db))"
        using wf by (simp add: wf_db_def sorted_wrt_map sorted_wrt_filter)
      show "int64 (r_id r) \<and> int64 (r_id r + 1)" if "r \<in> set (records ?db)" for r
        using that wf_record_int64[OF wf, of "r_id r"] by simp
      show "r \<in> r_id ` set (records ?db) \<and> g \<in> g_id ` set (genres ?db)"
        if "(r, g) \<in> record_genre ?db" for r g
      proof -
        from that have e: "(r, g) \<in> record_genre db" and ne: "r \<noteq> rid" by auto
        from wf_edge_record[OF wf e] wf_edge_genre[OF wf e] ne show ?thesis by auto
      qed
      show "t_record_id t \<in> r_id ` set (records ?db)" if "t \<in> set (tracks ?db)" for t
      proof -
        from that have e: "t \<in> set (tracks db)" and ne: "t_record_id t \<noteq> rid" by auto
        from wf_track_record[OF wf e] ne show ?thesis by auto
      qed
    qed
    with ok Inr Some show ?thesis
      by (simp add: delete_record_existing[OF wf])
  qed
qed

lemma handle_genres_post:
  assumes wf: "wf_db db" and ob: "get_record db rid = Inr (Some ob)"
    and hg: "handle_genres rid ob gk db = Inr (db1, p)"
    and fl: "flush_genres rid p (record_genre db1) = Inr edges"
  shows "\<exists>new. genres db1 = genres db @ new"
    and "sorted_wrt (<) (map g_id (genres db1))"
    and "distinct (map g_name (genres db1))"
    and "others_kept rid (record_genre db) edges"
    and "linked edges rid \<subseteq> g_id ` set (genres db1)"
proof -
  from wf have s: "sorted_wrt (<) (map g_id (genres db))" and d: "distinct (map g_name (genres db))"
    by (simp_all add: wf_db_def)
  have "(\<exists>new. genres db1 = genres db @ new) \<and> sorted_wrt (<) (map g_id (genres db1)) \<and>
        distinct (map g_name (genres db1)) \<and>
        others_kept rid (record_genre db) edges \<and> linked edges rid \<subseteq> g_id ` set (genres db1)"
  proof (cases gk)
    case None
    with hg have eq: "db1 = db" "p = no_pending" by (simp_all add: handle_genres_absent)
    with fl have e: "edges = record_genre db" by (simp add: flush_genres_nothing)
    have "linked (record_genre db) rid \<subseteq> g_id ` set (genres db)"
      using wf_edge_genre[OF wf] by (auto simp: linked_def)
    with s d show ?thesis by (simp add: eq e others_kept_refl)
  next
    case (Some v)
    with hg obtain names where names: "gk = Some (Some names)"
      by (cases v) (simp_all add: handle_genres_def)
    note loop = handle_genres_loop[OF wf ob hg[unfolded names]]
    have post: "records db1 = records db \<and> tracks db1 = tracks db \<and>
         (\<exists>new. genres db1 = genres db @ new) \<and>
         sorted_wrt (<) (map g_id (genres db1)) \<and> distinct (map g_name (genres db1)) \<and>
         deleted_items p \<subseteq> linked (record_genre db1) rid \<and>
         (linked (record_genre db1) rid - deleted_items p) \<union> added_items p
           = {} \<union> named (genres db1) names \<and>
         set names \<subseteq> g_name ` set (genres db1) \<and>
         others_kept rid (record_genre db) (record_genre db1)"
      by (rule update_genres_post[OF loop s d]) simp_all
    note f = flush_genres_result[OF fl]
    from post have c: "(linked (record_genre db1) rid - deleted_items p) \<union> added_items p
                       = named (genres db1) names" by simp
    from post have o1: "others_kept rid (record_genre db) (record_genre db1)" by blast
    have "linked edges rid \<subseteq> g_id ` set (genres db1)"
      using f(1) c named_subset_ids by simp
    moreover have "others_kept rid (record_genre db) edges"
      using o1 f(2) by (rule others_kept_trans)
    moreover from post have "\<exists>new. genres db1 = genres db @ new"
      "sorted_wrt (<) (map g_id (genres db1))" "distinct (map g_name (genres db1))" by blast+
    ultimately show ?thesis by blast
  qed
  then show "\<exists>new. genres db1 = genres db @ new"
    and "sorted_wrt (<) (map g_id (genres db1))"
    and "distinct (map g_name (genres db1))"
    and "others_kept rid (record_genre db) edges"
    and "linked edges rid \<subseteq> g_id ` set (genres db1)"
    by blast+
qed

lemma handle_tracks_post:
  assumes "handle_tracks rid tk tbl0 = Inr (tbl, pending)"
  shows "set tbl \<subseteq> set tbl0" and "sorted_wrt (<) (map t_id tbl0) \<Longrightarrow> sorted_wrt (<) (map t_id tbl)"
proof -
  from assms have "tbl = tbl0 \<or> tbl = filter (\<lambda>t. t_record_id t \<noteq> rid) tbl0"
    by (auto simp: handle_tracks_def split: option.splits sum.splits)
  then show "set tbl \<subseteq> set tbl0"
    and "sorted_wrt (<) (map t_id tbl0) \<Longrightarrow> sorted_wrt (<) (map t_id tbl)"
    by (auto simp: sorted_wrt_map sorted_wrt_filter)
qed

lemma map_replace_ids:
  assumes "r_id row = rid"
  shows "map r_id (map (\<lambda>r. if r_id r = rid then row else r) xs) = map r_id xs"
  using assms by (induction xs) auto

lemma wf_update_record:
  assumes wf: "wf_db db" and ok: "update_record db rid upd today utcnow = Inr (db', res)"
  shows "wf_db db'"
proof (cases res)
  case None
  with ok have "db' = db"
    by (auto simp: update_record_def Let_def split: sum.splits option.splits if_splits)
  with wf show ?thesis by simp
next
  case (Some updated)
  from ok[unfolded Some] obtain ob db1 p tbl pending edges where
    ob: "get_record db rid = Inr (Some ob)"
    and hg: "handle_genres rid ob (u_genres upd) db = Inr (db1, p)"
    and ht: "handle_tracks rid (u_tracks upd) (tracks db1) = Inr (tbl, pending)"
    and fl: "flush_genres rid p (record_genre db1) = Inr edges"
    and db': "db' = db1\<lparr>records := map (\<lambda>r. if r_id r = rid
                                      then touch (o_columns ob) (setattrs upd (o_columns ob)) today utcnow
                                      else r) (records db1),
                 record_genre := edges,
                 tracks := insert_tracks rid pending tbl\<rparr>"
    by (rule update_record_SomeE)
  define row where "row = touch (o_columns ob) (setattrs upd (o_columns ob)) today utcnow"
  have row_id: "r_id row = rid"
    using get_record_id[OF ob] by (simp add: row_def)
  note fr = handle_genres_frame[OF hg]
  note gp = handle_genres_post[OF wf ob hg fl]
  note tp = handle_tracks_post[OF ht]
  have ids: "map r_id (records db') = map r_id (records db)"
    using map_replace_ids[OF row_id, of "records db"] fr unfolding row_def by (simp add: db')
  have rid_in: "rid \<in> r_id ` set (records db)"
    using get_record_loaded[OF ob] by simp
  from insert_tracks_result[of rid pending tbl] obtain newt where
    nt: "insert_tracks rid pending tbl = tbl @ newt" "\<forall>t \<in> set newt. t_record_id t = rid"
        "sorted_wrt (<) (map t_id tbl) \<longrightarrow> sorted_wrt (<) (map t_id (tbl @ newt))"
    by blast
  have set_ids: "r_id ` set (records db') = r_id ` set (records db)"
    using ids by (metis list.set_map)
  show ?thesis
  proof (rule wf_dbI)
    show "sorted_wrt (<) (map r_id (records db'))"
      using wf by (simp add: ids wf_db_def)
    show "sorted_wrt (<) (map g_id (genres db'))" using gp(2) by (simp add: db')
    show "distinct (map g_name (genres db'))" using gp(3) by (simp add: db')
    show "sorted_wrt (<) (map t_id (tracks db'))"
      using nt(1,3) tp(2) wf fr by (simp add: db' wf_db_def)
    show "int64 (r_id r) \<and> int64 (r_id r + 1)" if "r \<in> set (records db')" for r
    proof -
      from that have "r_id r \<in> r_id ` set (records db)" unfolding set_ids[symmetric] by simp
      from wf_record_int64[OF wf this] show ?thesis .
    qed
    show "r \<in> r_id ` set (records db') \<and> g \<in> g_id ` set (genres db')"
      if "(r, g) \<in> record_genre db'" for r g
    proof (cases "r = rid")
      case True
      with that have "g \<in> linked edges rid" by (simp add: db' linked_def)
      with gp(5) have "g \<in> g_id ` set (genres db')" by (auto simp: db')
      with True rid_in show ?thesis by (simp add: set_ids)
    next
      case False
      with that gp(4) have e: "(r, g) \<in> record_genre db"
        by (simp add: db' others_kept_def)
      from gp(1) obtain new where "genres db' = genres db @ new" by (auto simp: db')
      with wf_edge_record[OF wf e] wf_edge_genre[OF wf e] show ?thesis
        by (auto simp: set_ids)
    qed
    show "t_record_id t \<in> r_id ` set (records db')" if "t \<in> set (tracks db')" for t
    proof (cases "t \<in> set newt")
      case True
      with nt(2) rid_in show ?thesis by (simp add: set_ids)
    next
      case False
      with that nt(1) tp(1) fr have "t \<in> set (tracks db)" by (auto simp: db')
      from wf_track_record[OF wf this] show ?thesis by (simp add: set_ids)
    qed
  qed
qed

end
